theory Spec2Isabelle
  imports Complex_Main
begin

section \<open>JavaScript values used by the video-generation client\<close>

text \<open>
  Times are milliseconds since the epoch (\<open>Date.now()\<close>) as natural numbers; the clock of
  a run only moves forward.  JavaScript numbers that the code multiplies by \<open>1.3\<close>,
  \<open>1.5\<close>, \<open>0.2\<close> or \<open>0.8\<close> are modelled as exact rationals.  An optional
  property is an \<open>option\<close>; \<open>undefined\<close> is \<open>None\<close>.
\<close>

definition truthy :: "string option \<Rightarrow> bool" where
  "truthy s = (case s of None \<Rightarrow> False | Some v \<Rightarrow> v \<noteq> [])"

definition js_or :: "string option \<Rightarrow> string option \<Rightarrow> string option" where
  "js_or a b = (if truthy a then a else b)"

definition math_round_div1000 :: "nat \<Rightarrow> nat" where
  "math_round_div1000 ms = (ms + 500) div 1000"

definition digit_char :: "nat \<Rightarrow> char" where
  "digit_char d = ''0123456789'' ! (d mod 10)"

function string_of_nat :: "nat \<Rightarrow> string" where
  "string_of_nat n =
     (if n < 10 then [digit_char n] else string_of_nat (n div 10) @ [digit_char n])"
  by pat_completeness auto
termination
  by (relation "measure (\<lambda>n. n)") auto

declare string_of_nat.simps [simp del]

datatype json = JString string | JBool bool | JNull

type_synonym json_object = "(string \<times> json) list"

datatype 'a http_reply =
    NetworkError string
  | HttpError nat string string
  | HttpOk 'a

section \<open>services/enhancedTavusService.ts\<close>

subsection \<open>Interfaces\<close>

datatype tavus_status = Pending | Queued | Processing | Completed | Failed | Error

record TavusResponse =
  video_id :: string
  status :: tavus_status
  video_url :: "string option"
  preview_url :: "string option"
  thumbnail_url :: "string option"
  hosted_url :: "string option"
  download_url :: "string option"

text \<open>The JSON document the provider returns for \<open>GET /videos/{id}\<close>.\<close>

record status_json =
  data_video_id :: string
  data_status :: tavus_status
  data_hosted_url :: "string option"
  data_download_url :: "string option"
  data_thumbnail_url :: "string option"

text \<open>The JSON document the provider returns for \<open>POST /videos\<close>.\<close>

record submit_json =
  new_video_id :: string
  new_status :: "string option"

record VideoGenerationResult =
  success :: bool
  videoUrl :: "string option"
  thumbnailUrl :: "string option"
  videoId :: "string option"
  error :: "string option"
  attempts_made :: "nat option"
  total_time :: "nat option"
  queue_time :: "nat option"
  suggestion :: "string option"

definition no_result :: VideoGenerationResult where
  "no_result = \<lparr>success = False, videoUrl = None, thumbnailUrl = None, videoId = None,
     error = None, attempts_made = None, total_time = None, queue_time = None,
     suggestion = None\<rparr>"

record polling_config =
  maxAttempts :: nat
  initialInterval :: rat
  maxInterval :: rat
  backoffMultiplier :: rat
  totalTimeout :: nat
  queueTimeout :: nat
  peakUsageThreshold :: nat

definition POLLING_CONFIG :: polling_config where
  "POLLING_CONFIG = \<lparr>maxAttempts = 60, initialInterval = 5000, maxInterval = 20000,
     backoffMultiplier = 13 / 10, totalTimeout = 600000, queueTimeout = 180000,
     peakUsageThreshold = 180\<rparr>"

subsection \<open>getVideoStatus\<close>

definition api_key_missing_msg :: string where
  "api_key_missing_msg =
     ''Tavus API key is missing. Please set EXPO_PUBLIC_TAVUS_API_KEY in your environment variables.''"

definition tavus_api_error :: "nat \<Rightarrow> string \<Rightarrow> string \<Rightarrow> string" where
  "tavus_api_error code statusText errorText =
     ''Tavus API error: '' @ string_of_nat code @ '' '' @ statusText @ '' - '' @ errorText"

text \<open>A thrown \<open>Error\<close> is \<open>Inl\<close> of its message.\<close>

definition getVideoStatus :: "string \<Rightarrow> status_json http_reply \<Rightarrow> string + TavusResponse" where
  "getVideoStatus apiKey reply =
     (if apiKey = [] then Inl api_key_missing_msg
      else case reply of
          NetworkError msg \<Rightarrow> Inl msg
        | HttpError code statusText errorText \<Rightarrow> Inl (tavus_api_error code statusText errorText)
        | HttpOk d \<Rightarrow> Inr \<lparr>video_id = data_video_id d, status = data_status d,
            video_url = data_download_url d, preview_url = data_hosted_url d,
            thumbnail_url = data_thumbnail_url d, hosted_url = data_hosted_url d,
            download_url = data_download_url d\<rparr>)"

subsection \<open>pollVideoCompletionEnhanced\<close>

text \<open>
  The local variables of the polling loop, the clock, and the list of the waits the loop
  has passed to \<open>sleep\<close> so far (oldest first), each with the place of the call:
  after a poll answered in the queue phase, after a poll answered in the processing phase,
  or in the \<open>catch\<close> block after a poll that threw.  The provider is a function from
  the number of the poll (1, 2, ...) to the time the request takes and its reply.
\<close>

datatype wait_kind = QueueWait | ProcessingWait | RetryWait

record poll_state =
  attempts :: nat
  currentInterval :: rat
  queuePhase :: bool
  now :: nat
  sleeps :: "(wait_kind \<times> rat) list"

type_synonym status_oracle = "nat \<Rightarrow> nat \<times> status_json http_reply"

definition sleep :: "wait_kind \<Rightarrow> rat \<Rightarrow> poll_state \<Rightarrow> poll_state" where
  "sleep kind ms st = st\<lparr>now := now st + nat \<lfloor>ms\<rfloor>, sleeps := sleeps st @ [(kind, ms)]\<rparr>"

definition timeout_result :: "string \<Rightarrow> nat \<Rightarrow> nat \<Rightarrow> VideoGenerationResult" where
  "timeout_result vid n elapsedTime = no_result\<lparr>
     error := Some (''Video generation timeout after '' @ string_of_nat (math_round_div1000 elapsedTime)
       @ '' seconds. This can happen during peak usage periods.''),
     videoId := Some vid,
     attempts_made := Some n,
     total_time := Some (math_round_div1000 elapsedTime),
     suggestion := Some ''Check your Tavus dashboard or try again during off-peak hours (early morning/late evening)''\<rparr>"

definition status_name :: "tavus_status \<Rightarrow> string" where
  "status_name s = (case s of Pending \<Rightarrow> ''pending'' | Queued \<Rightarrow> ''queued''
     | Processing \<Rightarrow> ''processing'' | Completed \<Rightarrow> ''completed'' | Failed \<Rightarrow> ''failed''
     | Error \<Rightarrow> ''error'')"

definition failed_status_result :: "string \<Rightarrow> nat \<Rightarrow> nat \<Rightarrow> tavus_status \<Rightarrow> VideoGenerationResult" where
  "failed_status_result vid n elapsedTime s = no_result\<lparr>
     error := Some (''Video generation failed with status: '' @ status_name s),
     videoId := Some vid,
     attempts_made := Some n,
     total_time := Some (math_round_div1000 elapsedTime)\<rparr>"

definition polling_failed_result :: "string \<Rightarrow> nat \<Rightarrow> string \<Rightarrow> VideoGenerationResult" where
  "polling_failed_result vid n msg = no_result\<lparr>
     error := Some (''Polling failed after '' @ string_of_nat n @ '' attempts: '' @ msg),
     videoId := Some vid,
     attempts_made := Some n\<rparr>"

definition max_attempts_result :: "polling_config \<Rightarrow> string \<Rightarrow> nat \<Rightarrow> VideoGenerationResult" where
  "max_attempts_result cfg vid n = no_result\<lparr>
     error := Some (''Video generation timeout - exceeded maximum polling attempts (''
       @ string_of_nat (maxAttempts cfg) @ ''). Video may still be processing.''),
     videoId := Some vid,
     attempts_made := Some n,
     suggestion := Some ''Video may still be processing. Check your Tavus dashboard manually or try again in a few minutes.''\<rparr>"

definition pollInterval :: "poll_state \<Rightarrow> rat" where
  "pollInterval st =
     (if queuePhase st then min (currentInterval st * (3 / 2)) 30000 else currentInterval st)"

definition backoff :: "polling_config \<Rightarrow> poll_state \<Rightarrow> poll_state" where
  "backoff cfg st =
     st\<lparr>currentInterval := min (currentInterval st * backoffMultiplier cfg) (maxInterval cfg)\<rparr>"

text \<open>
  One pass through the body of the \<open>while\<close> loop.  \<open>Some r\<close> is a \<open>return r\<close>;
  \<open>None\<close> means that the body ran to its end and the loop condition is tested again.
\<close>

definition poll_body ::
  "polling_config \<Rightarrow> string \<Rightarrow> status_oracle \<Rightarrow> string \<Rightarrow> nat \<Rightarrow> poll_state
     \<Rightarrow> VideoGenerationResult option \<times> poll_state" where
  "poll_body cfg apiKey provider vid startTime st =
     (let elapsedTime = now st - startTime in
      if elapsedTime > totalTimeout cfg
      then (Some (timeout_result vid (attempts st) elapsedTime), st)
      else
        let st1 = st\<lparr>attempts := attempts st + 1\<rparr>;
            st2 = st1\<lparr>now := now st1 + fst (provider (attempts st1))\<rparr>
        in case getVideoStatus apiKey (snd (provider (attempts st1))) of
             Inl msg \<Rightarrow>
               if attempts st2 \<ge> maxAttempts cfg
               then (Some (polling_failed_result vid (attempts st2) msg), st2)
               else (None, sleep RetryWait (currentInterval st2) st2)
           | Inr statusResult \<Rightarrow>
               let st3 = (if status statusResult = Processing \<and> queuePhase st2
                          then st2\<lparr>queuePhase := False\<rparr> else st2);
                   url = js_or (js_or (hosted_url statusResult) (download_url statusResult))
                           (video_url statusResult)
               in if status statusResult = Completed \<and> truthy url
                  then (Some (no_result\<lparr>
                          success := True,
                          videoId := Some vid,
                          videoUrl := url,
                          thumbnailUrl := thumbnail_url statusResult,
                          attempts_made := Some (attempts st3),
                          total_time := Some (math_round_div1000 elapsedTime),
                          queue_time := Some (if queuePhase st3 then elapsedTime
                             else math_round_div1000 (now st3 - startTime))\<rparr>), st3)
                  else if status statusResult = Failed \<or> status statusResult = Error
                  then (Some (failed_status_result vid (attempts st3) elapsedTime
                          (status statusResult)), st3)
                  else if attempts st3 < maxAttempts cfg
                  then (None, backoff cfg (sleep (if queuePhase st3 then QueueWait else ProcessingWait)
                                              (pollInterval st3) st3))
                  else (None, st3))"

lemma poll_body_attempts:
  "poll_body cfg apiKey provider vid startTime st = (None, st') \<Longrightarrow> attempts st' = Suc (attempts st)"
  by (auto simp: poll_body_def Let_def sleep_def backoff_def split: if_splits sum.splits)

function poll_loop ::
  "polling_config \<Rightarrow> string \<Rightarrow> status_oracle \<Rightarrow> string \<Rightarrow> nat \<Rightarrow> poll_state
     \<Rightarrow> VideoGenerationResult \<times> poll_state" where
  "poll_loop cfg apiKey provider vid startTime st =
     (if attempts st < maxAttempts cfg
      then (case poll_body cfg apiKey provider vid startTime st of
              (Some r, st') \<Rightarrow> (r, st')
            | (None, st') \<Rightarrow> poll_loop cfg apiKey provider vid startTime st')
      else (max_attempts_result cfg vid (attempts st), st))"
  by pat_completeness auto
termination
  by (relation "measure (\<lambda>(cfg, apiKey, provider, vid, startTime, st). maxAttempts cfg - attempts st)")
     (auto dest: poll_body_attempts [OF sym])

declare poll_loop.simps [simp del]

definition pollVideoCompletionEnhanced ::
  "string \<Rightarrow> status_oracle \<Rightarrow> string \<Rightarrow> nat \<Rightarrow> VideoGenerationResult \<times> poll_state" where
  "pollVideoCompletionEnhanced apiKey provider vid startTime =
     poll_loop POLLING_CONFIG apiKey provider vid startTime
       \<lparr>attempts = 0, currentInterval = initialInterval POLLING_CONFIG, queuePhase = True,
        now = startTime, sleeps = []\<rparr>"

subsection \<open>The record store: table \<open>video_generations\<close>\<close>

datatype record_status = StatusPending | StatusProcessing | StatusCompleted | StatusFailed

record VideoGenerationRecord =
  record_id :: nat
  user_id :: string
  run_id :: string
  tavus_job_id :: "string option"
  record_status :: record_status
  record_video_url :: "string option"
  script_content :: string
  error_message :: "string option"

text \<open>
  What an \<open>update\<close> call on the table does: it is applied, or the store refuses it and
  returns the error in the result object (which the service never reads), or the call
  throws.
\<close>

datatype update_outcome = Applied | Refused | Thrown string

text \<open>
  The Supabase client as the service sees it.  \<open>auth_user\<close> is what
  \<open>supabase.auth.getUser()\<close> yields in the \<open>try\<close> block (\<open>None\<close> when there is an
  auth error or no user), \<open>auth_user_on_error\<close> what the second call, in the
  \<open>catch\<close> block, yields (\<open>None\<close> also when that call throws, which the inner
  \<open>try\<close> of the \<open>catch\<close> block swallows).  \<open>insert_error\<close> is the error the
  insert returns, if any, and \<open>update_outcome\<close> says what becomes of an update that
  writes the given status.
  \<open>status_writes\<close> lists every status value written to the table, with the id of the
  row written, oldest first.
\<close>

record supabase =
  auth_user :: "string option"
  auth_user_on_error :: "string option"
  video_generations :: "VideoGenerationRecord list"
  insert_error :: "string option"
  update_outcome :: "record_status \<Rightarrow> update_outcome"
  status_writes :: "(nat \<times> record_status) list"

definition new_record_id :: "VideoGenerationRecord list \<Rightarrow> nat" where
  "new_record_id rows = Suc (fold max (map record_id rows) 0)"

definition insert_generation ::
  "string \<Rightarrow> string \<Rightarrow> string \<Rightarrow> supabase \<Rightarrow> string + (nat \<times> supabase)" where
  "insert_generation uid run script sb =
     (case insert_error sb of
        Some msg \<Rightarrow> Inl msg
      | None \<Rightarrow>
          let rid = new_record_id (video_generations sb);
              row = \<lparr>record_id = rid, user_id = uid, run_id = run, tavus_job_id = None,
                     record_status = StatusPending, record_video_url = None,
                     script_content = script, error_message = None\<rparr>
          in Inr (rid, sb\<lparr>video_generations := video_generations sb @ [row],
                           status_writes := status_writes sb @ [(rid, StatusPending)]\<rparr>))"

definition update_where ::
  "(VideoGenerationRecord \<Rightarrow> bool) \<Rightarrow> (VideoGenerationRecord \<Rightarrow> VideoGenerationRecord)
     \<Rightarrow> supabase \<Rightarrow> supabase" where
  "update_where sel upd sb =
     sb\<lparr>video_generations := map (\<lambda>r. if sel r then upd r else r) (video_generations sb),
        status_writes := status_writes sb
          @ map (\<lambda>r. (record_id r, record_status (upd r))) (filter sel (video_generations sb))\<rparr>"

text \<open>
  An \<open>await supabase.from('video_generations').update(...)\<close> that writes the status
  \<open>st\<close>: \<open>Inl msg\<close> when the call throws, otherwise the store after the call.
\<close>

definition apply_update ::
  "record_status \<Rightarrow> (VideoGenerationRecord \<Rightarrow> bool)
     \<Rightarrow> (VideoGenerationRecord \<Rightarrow> VideoGenerationRecord) \<Rightarrow> supabase \<Rightarrow> string + supabase" where
  "apply_update st sel upd sb =
     (case update_outcome sb st of
        Applied \<Rightarrow> Inr (update_where sel upd sb)
      | Refused \<Rightarrow> Inr sb
      | Thrown msg \<Rightarrow> Inl msg)"

subsection \<open>initiateVideoGeneration\<close>

record environment =
  EXPO_PUBLIC_TAVUS_API_KEY :: "string option"
  EXPO_PUBLIC_TAVUS_REPLICA_ID :: "string option"

text \<open>The constructor: \<open>this.apiKey = process.env.EXPO_PUBLIC_TAVUS_API_KEY || ''\<close>.\<close>

definition apiKey :: "environment \<Rightarrow> string" where
  "apiKey env = (case EXPO_PUBLIC_TAVUS_API_KEY env of None \<Rightarrow> [] | Some k \<Rightarrow> k)"

record ActivityData =
  activity_id :: string
  activity_type :: string
  activity_name :: string
  distance_km :: "rat option"
  duration_seconds :: nat
  calories_burned :: "rat option"
  average_heart_rate :: "rat option"
  intensity_level :: "rat option"
  activity_notes :: "string option"

datatype video_format = Square | Vertical | Horizontal
datatype voice_type = Motivational | Encouraging | Calm | Excited | Proud
datatype background_style = Running_track | Mountain_road | Nature_path | Confetti | Calendar
datatype music_style = Energetic | Uplifting | Peaceful | Triumphant

record VideoCustomization =
  format :: video_format
  voiceType :: "voice_type option"
  backgroundStyle :: "background_style option"
  musicStyle :: "music_style option"
  includeStats :: "bool option"
  includeBranding :: "bool option"

record tavus_world =
  submit_latency :: nat
  submit_reply :: "submit_json http_reply"
  status_replies :: status_oracle

definition submission_payload :: "environment \<Rightarrow> ActivityData \<Rightarrow> string \<Rightarrow> nat \<Rightarrow> json_object" where
  "submission_payload env activity script t =
     [(''replica_id'', JString (the (js_or (EXPO_PUBLIC_TAVUS_REPLICA_ID env) (Some ''default-replica'')))),
      (''script'', JString script),
      (''video_name'', JString (''activity_'' @ activity_id activity @ ''_'' @ string_of_nat t)),
      (''fast'', JBool True)]"

text \<open>
  The result object \<open>{success: false, error}\<close> is \<open>Inl error\<close>, and
  \<open>{success: true, video_id, status}\<close> is \<open>Inr (video_id, status)\<close>.  The second
  component is the body of the request passed to \<open>fetch\<close>.
\<close>

definition initiateVideoGeneration ::
  "environment \<Rightarrow> tavus_world \<Rightarrow> ActivityData \<Rightarrow> string \<Rightarrow> nat
     \<Rightarrow> (string + string \<times> string) \<times> json_object" where
  "initiateVideoGeneration env world activity script t =
     (let payload = submission_payload env activity script t in
      (case submit_reply world of
         NetworkError msg \<Rightarrow> Inl msg
       | HttpError code statusText errorText \<Rightarrow> Inl (tavus_api_error code statusText errorText)
       | HttpOk d \<Rightarrow> Inr (new_video_id d, the (js_or (new_status d) (Some ''pending''))),
       payload))"

subsection \<open>generateActivityVideo\<close>

text \<open>
  The store part of the \<open>catch\<close> block (lines 186 to 200): it asks for the user again,
  does nothing when none comes back, and an update that throws is only logged.  The
  filter of the update is the owner and the two open statuses; it names neither the
  record nor the activity.
\<close>

definition mark_failed :: "string \<Rightarrow> supabase \<Rightarrow> supabase" where
  "mark_failed msg sb =
     (case auth_user_on_error sb of
        None \<Rightarrow> sb
      | Some u \<Rightarrow>
          (case apply_update StatusFailed
                  (\<lambda>r. user_id r = u \<and> record_status r \<in> {StatusPending, StatusProcessing})
                  (\<lambda>r. r\<lparr>record_status := StatusFailed, error_message := Some msg\<rparr>) sb of
             Inl updateError \<Rightarrow> sb
           | Inr sb' \<Rightarrow> sb'))"

text \<open>
  The call is suspended while it awaits the provider, and other clients of the store
  (other calls of this service among them) run meanwhile.  What they do to the store
  during one such wait is a function on the store.
\<close>

type_synonym other_clients = "supabase \<Rightarrow> supabase"

text \<open>
  Step 2 of the \<open>try\<close> block (lines 153 to 180): the poller runs, other clients act on
  the store meanwhile (\<open>during_poll\<close>), and the record \<open>rid\<close> is completed or an
  error is thrown.  \<open>Inl msg\<close> is \<open>throw new Error(msg)\<close>.
\<close>

definition poll_and_finish ::
  "other_clients \<Rightarrow> environment \<Rightarrow> tavus_world \<Rightarrow> nat \<Rightarrow> nat \<Rightarrow> string \<Rightarrow> supabase
     \<Rightarrow> (string + VideoGenerationResult) \<times> supabase" where
  "poll_and_finish during_poll env world t rid job sb2 =
     (let pollResult = fst (pollVideoCompletionEnhanced (apiKey env)
                         (status_replies world) job (t + submit_latency world))
      in if success pollResult \<and> truthy (videoUrl pollResult)
         then (case apply_update StatusCompleted (\<lambda>r. record_id r = rid)
                      (\<lambda>r. r\<lparr>record_status := StatusCompleted,
                             record_video_url := videoUrl pollResult\<rparr>)
                      (during_poll sb2) of
                 Inl msg \<Rightarrow> (Inl msg, during_poll sb2)
               | Inr sb3 \<Rightarrow>
                   (Inr (no_result\<lparr>
                      success := True,
                      videoUrl := videoUrl pollResult,
                      thumbnailUrl := thumbnailUrl pollResult,
                      videoId := Some (string_of_nat rid),
                      attempts_made := attempts_made pollResult,
                      total_time := total_time pollResult,
                      queue_time := queue_time pollResult\<rparr>),
                    sb3))
         else (Inl (the (js_or (error pollResult)
                      (Some ''Video generation failed - no video URL returned''))),
               during_poll sb2))"

text \<open>
  The \<open>try\<close> block.  \<open>script\<close> is the value of
  \<open>generateActivityScript(activity)\<close>, which picks one of three templates at random;
  \<open>t\<close> is the clock when the submission is built; \<open>during_submit\<close> is what other
  clients do to the store while the submission is awaited.  The result carries the store
  and the bodies of the \<open>POST /videos\<close> requests issued.
\<close>

definition generate_try ::
  "other_clients \<Rightarrow> other_clients \<Rightarrow> environment \<Rightarrow> supabase \<Rightarrow> tavus_world \<Rightarrow> ActivityData
     \<Rightarrow> string \<Rightarrow> nat \<Rightarrow> (string + VideoGenerationResult) \<times> supabase \<times> json_object list" where
  "generate_try during_submit during_poll env sb world activity script t =
     (case auth_user sb of
        None \<Rightarrow> (Inl ''User not authenticated'', sb, [])
      | Some u \<Rightarrow>
         (case insert_generation u (activity_id activity) script sb of
            Inl msg \<Rightarrow> (Inl (''Failed to create video generation record: '' @ msg), sb, [])
          | Inr (rid, sb1) \<Rightarrow>
             (case initiateVideoGeneration env world activity script t of
                (Inl msg, payload) \<Rightarrow> (Inl msg, during_submit sb1, [payload])
              | (Inr (job, _), payload) \<Rightarrow>
                 (case apply_update StatusProcessing (\<lambda>r. record_id r = rid)
                         (\<lambda>r. r\<lparr>tavus_job_id := Some job, record_status := StatusProcessing\<rparr>)
                         (during_submit sb1) of
                    Inl msg \<Rightarrow> (Inl msg, during_submit sb1, [payload])
                  | Inr sb2 \<Rightarrow>
                      (case poll_and_finish during_poll env world t rid job sb2 of
                         (outcome, sb3) \<Rightarrow> (outcome, sb3, [payload]))))))"

text \<open>
  \<open>generateActivityVideo\<close> as it runs among other clients of the store, and as it runs
  alone (nobody else touches the store while it is suspended).
\<close>

definition generateActivityVideo_among ::
  "other_clients \<Rightarrow> other_clients \<Rightarrow> environment \<Rightarrow> supabase \<Rightarrow> tavus_world \<Rightarrow> ActivityData
     \<Rightarrow> video_format \<Rightarrow> VideoCustomization option \<Rightarrow> string \<Rightarrow> nat
     \<Rightarrow> VideoGenerationResult \<times> supabase \<times> json_object list" where
  "generateActivityVideo_among during_submit during_poll env sb world activity fmt customization
       script t =
     (if apiKey env = [] then (no_result\<lparr>error := Some api_key_missing_msg\<rparr>, sb, [])
      else case generate_try during_submit during_poll env sb world activity script t of
             (Inr r, sb', posts) \<Rightarrow> (r, sb', posts)
           | (Inl msg, sb', posts) \<Rightarrow> (no_result\<lparr>error := Some msg\<rparr>, mark_failed msg sb', posts))"

definition generateActivityVideo ::
  "environment \<Rightarrow> supabase \<Rightarrow> tavus_world \<Rightarrow> ActivityData \<Rightarrow> video_format
     \<Rightarrow> VideoCustomization option \<Rightarrow> string \<Rightarrow> nat
     \<Rightarrow> VideoGenerationResult \<times> supabase \<times> json_object list" where
  "generateActivityVideo env sb world activity fmt customization script t =
     generateActivityVideo_among id id env sb world activity fmt customization script t"

definition getConfigStatus :: "environment \<Rightarrow> bool \<times> string" where
  "getConfigStatus env =
     (if apiKey env = []
      then (False, ''Tavus API key is missing. Please set EXPO_PUBLIC_TAVUS_API_KEY in your .env file.'')
      else (True, ''Tavus API is properly configured.''))"

section \<open>services/tavusService.ts\<close>

record RunData =
  distance :: rat
  duration :: rat
  pace :: rat
  calories :: rat

record VideoGenerationRequest =
  replicaId :: string
  runData :: RunData
  effortLevel :: "string option"
  mood :: "rat option"
  backgroundImageUrl :: "string option"

text \<open>
  The body that \<open>TavusService.generateVideo\<close> passes to \<open>fetch\<close>; \<open>script\<close> is the
  value of \<open>generateRunScript(request.runData)\<close>.  Of the response that
  \<open>generateVideo\<close> returns, the model keeps \<open>video_id\<close> and \<open>status\<close>; a thrown
  \<open>Error\<close> is \<open>Inl\<close> of its message, and the second component is the body posted.
\<close>

definition generateVideo_payload :: "VideoGenerationRequest \<Rightarrow> string \<Rightarrow> nat \<Rightarrow> json_object" where
  "generateVideo_payload request script t =
     [(''replica_id'', JString (if replicaId request = [] then ''default-replica'' else replicaId request)),
      (''script'', JString script),
      (''video_name'', JString (''run_achievement_'' @ string_of_nat t)),
      (''callback_url'', JNull)]
     @ (if truthy (backgroundImageUrl request)
        then [(''background_url'', JString (the (backgroundImageUrl request)))] else [])"

definition generateVideo ::
  "VideoGenerationRequest \<Rightarrow> string \<Rightarrow> nat \<Rightarrow> status_json http_reply
     \<Rightarrow> (string + string \<times> tavus_status) \<times> json_object" where
  "generateVideo request script t reply =
     (case reply of
        NetworkError msg \<Rightarrow> Inl msg
      | HttpError code statusText errorText \<Rightarrow>
          Inl (''Tavus API error: '' @ string_of_nat code @ '' '' @ statusText)
      | HttpOk d \<Rightarrow> Inr (data_video_id d, data_status d),
      generateVideo_payload request script t)"

section \<open>hooks/useEnhancedVideoGeneration.ts\<close>

datatype step = StepInitializing | StepProcessing | StepFinalizing | StepCompleted | StepFailed

record VideoGenerationState =
  isGenerating :: bool
  progress :: string
  error_st :: "string option"
  videoUrl_st :: "string option"
  thumbnailUrl_st :: "string option"
  currentStep :: step
  elapsedTime :: nat
  estimatedTimeRemaining :: nat
  isPeakUsage :: bool

definition initial_state :: VideoGenerationState where
  "initial_state = \<lparr>isGenerating = False, progress = [], error_st = None, videoUrl_st = None,
     thumbnailUrl_st = None, currentStep = StepInitializing, elapsedTime = 0,
     estimatedTimeRemaining = 180, isPeakUsage = False\<rparr>"

definition getProgressMessage :: "nat \<Rightarrow> step \<Rightarrow> bool \<Rightarrow> string" where
  "getProgressMessage elapsedSeconds stp peak =
     (if stp = StepInitializing then ''Initializing video generation...''
      else if stp = StepProcessing then
        (if elapsedSeconds < 30 then ''Starting video generation...''
         else if elapsedSeconds < 90 then ''Added to processing queue...''
         else if elapsedSeconds < 120 then ''Waiting in queue - this is normal during peak hours...''
         else if elapsedSeconds < 240 then
           (if peak then ''Still queued - experiencing high demand...''
            else ''Processing your video - AI generation in progress...'')
         else if elapsedSeconds < 360 then ''Processing your video - AI generation in progress...''
         else ''Almost complete - finalizing your achievement video...'')
      else if stp = StepFinalizing then ''Finalizing your video...''
      else if stp = StepCompleted then ''Video generation completed!''
      else ''Processing...'')"

text \<open>
  The timer callback.  \<open>elapsed\<close> is
  \<open>Math.floor((Date.now() - startTimeRef.current) / 1000)\<close>; the subtraction on
  \<open>nat\<close> stops at 0, as \<open>Math.max(0, ...)\<close> does.
\<close>

definition updateProgress :: "nat \<Rightarrow> VideoGenerationState \<Rightarrow> VideoGenerationState" where
  "updateProgress elapsed st =
     (if \<not> isGenerating st then st
      else
        let remaining = estimatedTimeRemaining st - elapsed;
            peak = (elapsed > 120)
        in st\<lparr>elapsedTime := elapsed,
              estimatedTimeRemaining := remaining,
              progress := getProgressMessage elapsed (currentStep st) peak,
              isPeakUsage := peak\<rparr>)"

definition getProgressPercentage :: "VideoGenerationState \<Rightarrow> rat" where
  "getProgressPercentage st =
     (if currentStep st = StepCompleted then 100
      else if currentStep st = StepFailed then 0
      else
        let maxEstimatedTime = (if isPeakUsage st then 480 else 240);
            timeProgress = min ((of_nat (elapsedTime st) / maxEstimatedTime) * 100) 95
        in case currentStep st of
             StepInitializing \<Rightarrow> max 10 (timeProgress * (2 / 10))
           | StepProcessing \<Rightarrow> max 20 (timeProgress * (8 / 10))
           | StepFinalizing \<Rightarrow> max 85 timeProgress
           | _ \<Rightarrow> timeProgress)"

text \<open>The state written when the API key is not configured (lines 131 to 141).\<close>

definition config_failed_state :: "string \<Rightarrow> VideoGenerationState" where
  "config_failed_state msg = \<lparr>isGenerating = False, progress = [], error_st = Some msg,
     videoUrl_st = None, thumbnailUrl_st = None, currentStep = StepFailed, elapsedTime = 0,
     estimatedTimeRemaining = 480, isPeakUsage = False\<rparr>"

text \<open>The first \<open>setState\<close> of a call (lines 145 to 156).\<close>

definition begin_generation :: "VideoGenerationState \<Rightarrow> VideoGenerationState" where
  "begin_generation prev = prev\<lparr>isGenerating := True,
     progress := ''Initializing video generation...'', error_st := None, videoUrl_st := None,
     thumbnailUrl_st := None, currentStep := StepInitializing, elapsedTime := 0,
     estimatedTimeRemaining := 480, isPeakUsage := False\<rparr>"

text \<open>Lines 165 to 169.\<close>

definition enter_processing :: "VideoGenerationState \<Rightarrow> VideoGenerationState" where
  "enter_processing prev = prev\<lparr>progress := ''Requesting video generation from Tavus...'',
     currentStep := StepProcessing\<rparr>"

text \<open>The two \<open>setState\<close> calls of the success branch (lines 179 to 196).\<close>

definition on_success :: "VideoGenerationResult \<Rightarrow> VideoGenerationState \<Rightarrow> VideoGenerationState" where
  "on_success result prev =
     (let prev1 = prev\<lparr>progress := ''Video generation completed!'', currentStep := StepCompleted\<rparr>
      in prev1\<lparr>isGenerating := False,
           progress := ''Video generation completed!'',
           error_st := None,
           videoUrl_st := videoUrl result,
           thumbnailUrl_st := (if truthy (thumbnailUrl result) then thumbnailUrl result else None),
           currentStep := StepCompleted,
           elapsedTime := (case total_time result of None \<Rightarrow> 0 | Some n \<Rightarrow> n),
           estimatedTimeRemaining := 0,
           isPeakUsage := (case total_time result of None \<Rightarrow> False
                           | Some n \<Rightarrow> if n = 0 then False else n > 120)\<rparr>)"

fun str_includes :: "string \<Rightarrow> string \<Rightarrow> bool" where
  "str_includes [] pat = (pat = [])"
| "str_includes (c # cs) pat = (take (length pat) (c # cs) = pat \<or> str_includes cs pat)"

definition getEnhancedErrorMessage :: "string \<Rightarrow> string" where
  "getEnhancedErrorMessage errorMessage =
     (if str_includes errorMessage ''timeout'' \<or> str_includes errorMessage ''peak usage''
      then ''Video generation is taking longer than expected due to high demand. This is normal during peak usage periods. Try again during off-peak hours (early morning/late evening) for faster processing.''
      else if str_includes errorMessage ''API key''
      then ''Video service configuration issue. Please contact support.''
      else if str_includes errorMessage ''replica''
      then ''Video avatar not ready. Please try again in a few minutes.''
      else errorMessage)"

text \<open>The \<open>setState\<close> of the \<open>catch\<close> block (lines 210 to 221).\<close>

definition on_error :: "string \<Rightarrow> VideoGenerationState \<Rightarrow> VideoGenerationState" where
  "on_error msg prev = prev\<lparr>isGenerating := False, progress := [],
     error_st := Some (getEnhancedErrorMessage msg), videoUrl_st := None,
     thumbnailUrl_st := None, currentStep := StepFailed, elapsedTime := 0,
     estimatedTimeRemaining := 480, isPeakUsage := False\<rparr>"

definition resetState :: "VideoGenerationState \<Rightarrow> VideoGenerationState" where
  "resetState prev = prev\<lparr>isGenerating := False, progress := [], error_st := None,
     videoUrl_st := None, thumbnailUrl_st := None, currentStep := StepInitializing,
     elapsedTime := 0, estimatedTimeRemaining := 480, isPeakUsage := False\<rparr>"

text \<open>The timer callbacks that run while the call awaits the service, in order.\<close>

definition run_ticks :: "nat list \<Rightarrow> VideoGenerationState \<Rightarrow> VideoGenerationState" where
  "run_ticks ticks st = fold updateProgress ticks st"

text \<open>
  The hook's \<open>generateActivityVideo\<close>.  \<open>user\<close> is the user of \<open>useAuth()\<close>,
  \<open>st\<close> the hook's state when the call is made, \<open>ticks\<close> the elapsed seconds read
  by the timer callbacks that run while the service call is pending.  \<open>Inl msg\<close> is
  the rejection of the promise with \<open>Error(msg)\<close>; \<open>Inr\<close> carries \<open>videoUrl\<close>,
  \<open>thumbnailUrl\<close> and \<open>videoId\<close>.
\<close>

definition generateActivityVideo_hook ::
  "string option \<Rightarrow> environment \<Rightarrow> VideoGenerationState \<Rightarrow> supabase \<Rightarrow> tavus_world
     \<Rightarrow> ActivityData \<Rightarrow> VideoCustomization \<Rightarrow> string \<Rightarrow> nat \<Rightarrow> nat list
     \<Rightarrow> (string + string option \<times> string option \<times> string option)
        \<times> VideoGenerationState \<times> supabase \<times> json_object list" where
  "generateActivityVideo_hook user env st sb world activity customization script t ticks =
     (if user = None then (Inl ''User not authenticated'', st, sb, [])
      else if \<not> fst (getConfigStatus env)
      then (Inl (snd (getConfigStatus env)), config_failed_state (snd (getConfigStatus env)), sb, [])
      else
        let st1 = begin_generation st in
        if auth_user sb = None
        then (Inl ''User not authenticated'', on_error ''User not authenticated'' st1, sb, [])
        else
          let st2 = enter_processing st1;
              (result, sb', posts) = generateActivityVideo env sb world activity
                 (format customization) (Some customization) script t;
              st3 = run_ticks ticks st2
          in if success result \<and> truthy (videoUrl result)
             then (Inr (videoUrl result, thumbnailUrl result, videoId result),
                   on_success result st3, sb', posts)
             else
               let msg = the (js_or (error result)
                           (Some ''Video generation failed - no video URL returned''))
               in (Inl msg, on_error msg st3, sb', posts))"

section \<open>Scenarios\<close>

text \<open>Concrete providers, requests and stores on which the code is run below.\<close>

definition completed_reply :: "string option \<Rightarrow> status_json" where
  "completed_reply url = \<lparr>data_video_id = ''v1'', data_status = Completed,
     data_hosted_url = url, data_download_url = None, data_thumbnail_url = None\<rparr>"

text \<open>The first poll is answered \<open>completed\<close> without any URL, the later ones with one.\<close>

definition late_url :: status_oracle where
  "late_url n = (0, HttpOk (completed_reply (if n \<le> 1 then None else Some ''https://x/v.mp4'')))"

definition legacy_request :: VideoGenerationRequest where
  "legacy_request = \<lparr>replicaId = ''r1'',
     runData = \<lparr>distance = 5, duration = 1800, pace = 6, calories = 300\<rparr>,
     effortLevel = None, mood = None, backgroundImageUrl = Some ''https://x/bg.png''\<rparr>"

definition env_no_replica :: environment where
  "env_no_replica = \<lparr>EXPO_PUBLIC_TAVUS_API_KEY = Some ''key'', EXPO_PUBLIC_TAVUS_REPLICA_ID = None\<rparr>"

definition empty_store :: supabase where
  "empty_store = \<lparr>auth_user = Some ''u1'', auth_user_on_error = Some ''u1'',
     video_generations = [], insert_error = None, update_outcome = (\<lambda>st. Applied),
     status_writes = []\<rparr>"

definition morning_run :: ActivityData where
  "morning_run = \<lparr>activity_id = ''a1'', activity_type = ''Running'', activity_name = ''Morning run'',
     distance_km = Some 5, duration_seconds = 1800, calories_burned = Some 300,
     average_heart_rate = None, intensity_level = None, activity_notes = None\<rparr>"

definition square_custom :: VideoCustomization where
  "square_custom = \<lparr>format = Square, voiceType = Some Calm, backgroundStyle = Some Confetti,
     musicStyle = None, includeStats = Some True, includeBranding = None\<rparr>"

text \<open>A provider that rejects the submission with HTTP 400.\<close>

definition world_rejected :: tavus_world where
  "world_rejected = \<lparr>submit_latency = 0, submit_reply = HttpError 400 ''Bad Request'' ''invalid'',
     status_replies = (\<lambda>n. (0, NetworkError ''unreachable''))\<rparr>"

text \<open>A provider that accepts the submission and answers the first poll with the video.\<close>

definition world_ok :: tavus_world where
  "world_ok = \<lparr>submit_latency = 0,
     submit_reply = HttpOk \<lparr>new_video_id = ''v1'', new_status = Some ''queued''\<rparr>,
     status_replies = (\<lambda>n. (0, HttpOk (completed_reply (Some ''https://x/v.mp4''))))\<rparr>"

text \<open>The hook's state once a call has reached the service.\<close>

definition processing_state :: VideoGenerationState where
  "processing_state = enter_processing (begin_generation initial_state)"

text \<open>A store that holds the record of a call still in flight.\<close>

definition busy_store :: supabase where
  "busy_store = \<lparr>auth_user = Some ''u1'', auth_user_on_error = Some ''u1'',
     video_generations = [\<lparr>record_id = 1, user_id = ''u1'', run_id = ''a0'',
        tavus_job_id = Some ''v0'', record_status = StatusProcessing, record_video_url = None,
        script_content = ''Great job'', error_message = None\<rparr>],
     insert_error = None, update_outcome = (\<lambda>st. Applied),
     status_writes = [(1, StatusPending), (1, StatusProcessing)]\<rparr>"



definition lossy_store :: supabase where
  "lossy_store = empty_store\<lparr>update_outcome :=
     (\<lambda>st. if st = StatusProcessing then Refused else Applied)\<rparr>"

text \<open>
  Another client of the store: a second call of the same user, made while the first is
  suspended, whose submission the provider rejects.
\<close>

definition overlapping_failure :: other_clients where
  "overlapping_failure sb = fst (snd (generateActivityVideo env_no_replica sb world_rejected
      morning_run Square (Some square_custom) ''Well done'' 7))"

text \<open>A provider that answers \<open>queued\<close> five times, then \<open>processing\<close>, then \<open>failed\<close>.\<close>

definition status_reply :: "tavus_status \<Rightarrow> status_json" where
  "status_reply st = \<lparr>data_video_id = ''v1'', data_status = st,
     data_hosted_url = None, data_download_url = None, data_thumbnail_url = None\<rparr>"

definition phase_change :: status_oracle where
  "phase_change n = (0, HttpOk (status_reply
      (if n \<le> 5 then Queued else if n = 6 then Processing else Failed)))"

text \<open>
  A provider whose first 59 polls throw a network error and whose 60th poll answers
  \<open>processing\<close>.
\<close>

definition processing_reply :: status_json where
  "processing_reply = \<lparr>data_video_id = ''v1'', data_status = Processing,
     data_hosted_url = None, data_download_url = None, data_thumbnail_url = None\<rparr>"

definition flaky :: status_oracle where
  "flaky n = (0, if n < 60 then NetworkError ''offline'' else HttpOk processing_reply)"

text \<open>A provider none of whose polls gets through.\<close>

definition unreachable :: status_oracle where
  "unreachable n = (0, NetworkError ''offline'')"

text \<open>
  Two states at the top of the polling loop: one past the ten minutes, one with the
  attempts used up.
\<close>

definition timed_out_state :: poll_state where
  "timed_out_state = \<lparr>attempts = 3, currentInterval = 10985, queuePhase = True,
     now = 700000, sleeps = []\<rparr>"

definition exhausted_state :: poll_state where
  "exhausted_state = \<lparr>attempts = 60, currentInterval = 20000, queuePhase = False,
     now = 300000, sleeps = []\<rparr>"

section \<open>Observations on the record store\<close>

text \<open>
  The status values that a run has written to the record it created, in order: the writes
  added to \<open>status_writes\<close> between the store \<open>sb\<close> before the run and the store
  \<open>sb'\<close> after it, restricted to the id that the run's insert gives its record.
\<close>

definition run_status_sequence :: "supabase \<Rightarrow> supabase \<Rightarrow> record_status list" where
  "run_status_sequence sb sb' =
     map snd (filter (\<lambda>w. fst w = new_record_id (video_generations sb))
                (drop (length (status_writes sb)) (status_writes sb')))"

text \<open>
  The rows of the table with the id \<open>rid\<close>, and the status values written to this id
  after the first \<open>n\<close> writes.
\<close>

definition record_rows :: "nat \<Rightarrow> supabase \<Rightarrow> VideoGenerationRecord list" where
  "record_rows rid sb = filter (\<lambda>r. record_id r = rid) (video_generations sb)"

definition writes_since :: "nat \<Rightarrow> nat \<Rightarrow> supabase \<Rightarrow> record_status list" where
  "writes_since n rid sb = map snd (filter (\<lambda>w. fst w = rid) (drop n (status_writes sb)))"

text \<open>
  Other clients that leave the record \<open>rid\<close> alone: whatever the store is, they neither
  change, remove nor add a row with this id, they write no status to it, and they leave
  the session and the behaviour of updates as they are.  (They may insert and update other
  rows.)
\<close>

definition keeps_record :: "nat \<Rightarrow> other_clients \<Rightarrow> bool" where
  "keeps_record rid f \<longleftrightarrow>
     (\<forall>s. auth_user_on_error (f s) = auth_user_on_error s
        \<and> update_outcome (f s) = update_outcome s
        \<and> record_rows rid (f s) = record_rows rid s
        \<and> (\<exists>ws. status_writes (f s) = status_writes s @ ws \<and> filter (\<lambda>w. fst w = rid) ws = []))"

text \<open>
  The store \<open>s\<close> holds the record that a run started on the store \<open>sb\<close> has created for
  the user \<open>u\<close> and the activity \<open>run\<close>: its status is \<open>st\<close>, and \<open>h\<close> are the
  status values written to it since the run began.
\<close>

definition tracks ::
  "supabase \<Rightarrow> string \<Rightarrow> string \<Rightarrow> supabase \<Rightarrow> record_status \<Rightarrow> record_status list \<Rightarrow> bool" where
  "tracks sb u run s st h \<longleftrightarrow>
     (\<exists>r. record_rows (new_record_id (video_generations sb)) s = [r]
          \<and> user_id r = u \<and> run_id r = run \<and> record_status r = st)
     \<and> writes_since (length (status_writes sb)) (new_record_id (video_generations sb)) s = h
     \<and> length (status_writes sb) \<le> length (status_writes s)
     \<and> auth_user_on_error s = auth_user_on_error sb
     \<and> update_outcome s = update_outcome sb"

section \<open>The ways a run of the poller ends\<close>

text \<open>
  The result \<open>r\<close> and the final state \<open>st'\<close> of a run of the poller started at time
  \<open>s\<close>: the run succeeded; or a poll was answered \<open>failed\<close> or \<open>error\<close>; or, with
  fewer than 60 polls made, more than 600000 ms had passed at the top of an iteration; or
  60 polls were made and the 60th was answered, without ending the run; or 60 polls were
  made and the 60th threw.
\<close>

definition poll_outcome ::
  "string \<Rightarrow> status_oracle \<Rightarrow> string \<Rightarrow> nat \<Rightarrow> VideoGenerationResult \<Rightarrow> poll_state \<Rightarrow> bool" where
  "poll_outcome k p v s r st' \<longleftrightarrow>
     success r
   \<or> (\<exists>e x. r = failed_status_result v (attempts st') e x)
   \<or> (attempts st' < 60 \<and> 600000 < now st' - s \<and> r = timeout_result v (attempts st') (now st' - s))
   \<or> (attempts st' = 60 \<and> (\<exists>resp. getVideoStatus k (snd (p 60)) = Inr resp)
        \<and> r = max_attempts_result POLLING_CONFIG v 60)
   \<or> (attempts st' = 60
        \<and> (\<exists>msg. getVideoStatus k (snd (p 60)) = Inl msg \<and> r = polling_failed_result v 60 msg))"

section \<open>The invariant of the waits\<close>

text \<open>
  A wait lies within the bounds set by the base interval \<open>c\<close>: at least the initial
  5000 ms, and at most \<open>min (c * 1.5) 30000\<close> after a poll in the queue phase and
  \<open>c\<close> otherwise.  The invariant of the loop: the base interval lies between 5000 and
  20000, the waits of the queue phase are in ascending order, so are the other waits, and
  every wait is within the bounds of the current base interval.
\<close>

definition wait_within :: "rat \<Rightarrow> wait_kind \<times> rat \<Rightarrow> bool" where
  "wait_within c x \<longleftrightarrow>
     5000 \<le> snd x \<and> snd x \<le> (if fst x = QueueWait then min (c * (3 / 2)) 30000 else c)"

definition waits_inv :: "rat \<Rightarrow> (wait_kind \<times> rat) list \<Rightarrow> bool" where
  "waits_inv c ws \<longleftrightarrow>
     5000 \<le> c \<and> c \<le> 20000
     \<and> sorted (map snd (filter (\<lambda>x. fst x = QueueWait) ws))
     \<and> sorted (map snd (filter (\<lambda>x. fst x \<noteq> QueueWait) ws))
     \<and> (\<forall>x \<in> set ws. wait_within c x)"

section \<open>Properties\<close>

subsection \<open>Unfolding the polling loop\<close>

lemma poll_loop_unfold:
  "poll_loop cfg k p v s st =
     (if attempts st < maxAttempts cfg
      then (if fst (poll_body cfg k p v s st) = None
            then poll_loop cfg k p v s (snd (poll_body cfg k p v s st))
            else (the (fst (poll_body cfg k p v s st)), snd (poll_body cfg k p v s st)))
      else (max_attempts_result cfg v (attempts st), st))"
  by (subst poll_loop.simps) (auto split: prod.splits option.splits)

subsection \<open>A poll answered \<open>completed\<close> without a media URL\<close>

text \<open>
  C1.  The claim: a poll that reports \<open>completed\<close> with no usable media URL makes the
  poller fail at once, without polling again and without ever returning success.  The code
  run on \<open>late_url\<close>: the first poll reports \<open>completed\<close> with no \<open>hosted_url\<close> and no
  \<open>download_url\<close>; the loop neither returns nor fails, it waits 7500 ms, polls a second
  time and returns \<open>success: true\<close> with \<open>attempts_made = 2\<close>.
\<close>

theorem completed_without_url_polls_again:
  "pollVideoCompletionEnhanced ''key'' late_url ''v1'' 0 =
     (no_result\<lparr>success := True, videoId := Some ''v1'', videoUrl := Some ''https://x/v.mp4'',
        attempts_made := Some 2, total_time := Some 8, queue_time := Some 7500\<rparr>,
      \<lparr>attempts = 2, currentInterval = 6500, queuePhase = True, now = 7500,
       sleeps = [(QueueWait, 7500)]\<rparr>)"
  by (simp add: pollVideoCompletionEnhanced_def poll_loop_unfold poll_body_def POLLING_CONFIG_def
    late_url_def completed_reply_def getVideoStatus_def Let_def js_or_def truthy_def sleep_def
    backoff_def pollInterval_def no_result_def math_round_div1000_def)

subsection \<open>The body of the submission request\<close>

text \<open>
  The request of \<open>EnhancedTavusService\<close> has exactly the four keys \<open>replica_id\<close>,
  \<open>script\<close>, \<open>video_name\<close> and \<open>fast\<close>, none of them \<open>null\<close>, whatever the
  customization is, and it is the only body the service ever posts.
\<close>

lemma submission_payload_keys:
  "map fst (submission_payload env activity script t)
     = [''replica_id'', ''script'', ''video_name'', ''fast'']
   \<and> JNull \<notin> snd ` set (submission_payload env activity script t)"
  by (simp add: submission_payload_def)

lemma generate_try_posts:
  "set (snd (snd (generate_try d1 d2 env sb world activity script t)))
     \<subseteq> {submission_payload env activity script t}"
proof (cases "auth_user sb")
  case None
  then show ?thesis by (simp add: generate_try_def)
next
  case (Some u)
  show ?thesis
  proof (cases "insert_generation u (activity_id activity) script sb")
    case (Inl m)
    then show ?thesis using Some by (simp add: generate_try_def)
  next
    case (Inr p)
    obtain rid sb1 where p: "p = (rid, sb1)" by (cases p)
    show ?thesis
      using Some Inr p
      by (auto simp: generate_try_def initiateVideoGeneration_def Let_def
          split: sum.splits prod.splits http_reply.splits if_splits)
  qed
qed

lemma generateActivityVideo_posts:
  "set (snd (snd (generateActivityVideo env sb world activity fmt customization script t)))
     \<subseteq> {submission_payload env activity script t}"
  using generate_try_posts [of id id env sb world activity script t]
  by (auto simp: generateActivityVideo_def generateActivityVideo_among_def
      split: prod.splits sum.splits)

text \<open>
  C2.  The claim: the body of the submission POST has only the keys \<open>replica_id\<close>,
  \<open>script\<close>, \<open>video_name\<close> and \<open>fast\<close>, and no key is sent with a \<open>null\<close> value.
  \<open>TavusService.generateVideo\<close> run on \<open>legacy_request\<close>: the body carries
  \<open>callback_url: null\<close> and \<open>background_url\<close>.
\<close>

theorem generateVideo_sends_null_callback:
  "snd (generateVideo legacy_request ''Incredible run today!'' 0 (HttpError 400 ''Bad Request'' []))
     = [(''replica_id'', JString ''r1''), (''script'', JString ''Incredible run today!''),
        (''video_name'', JString ''run_achievement_0''), (''callback_url'', JNull),
        (''background_url'', JString ''https://x/bg.png'')]"
  by (simp add: generateVideo_def generateVideo_payload_def legacy_request_def truthy_def
       string_of_nat.simps digit_char_def)

subsection \<open>Configuration\<close>

text \<open>
  C10.  When the replica variable \<open>EXPO_PUBLIC_TAVUS_REPLICA_ID\<close> is unset (or empty),
  an authenticated call whose record can be created is a configuration failure only when
  the API key is missing: then nothing is posted and nothing is written.  With the API key
  set the configuration check passes, the submission is posted, and its \<open>replica_id\<close>
  is the literal \<open>default-replica\<close>.
\<close>

theorem replica_id_falls_back:
  assumes "\<not> truthy (EXPO_PUBLIC_TAVUS_REPLICA_ID env)" "auth_user sb = Some u"
    "insert_error sb = None"
  shows "if apiKey env = []
         then \<not> fst (getConfigStatus env)
            \<and> generateActivityVideo env sb world a f c s t
                = (no_result\<lparr>error := Some api_key_missing_msg\<rparr>, sb, [])
         else fst (getConfigStatus env)
            \<and> snd (snd (generateActivityVideo env sb world a f c s t)) = [submission_payload env a s t]
            \<and> map_of (submission_payload env a s t) ''replica_id'' = Some (JString ''default-replica'')"
proof (cases "apiKey env = []")
  case True
  then show ?thesis
    by (simp add: generateActivityVideo_def generateActivityVideo_among_def getConfigStatus_def)
next
  case False
  have "snd (snd (generate_try id id env sb world a s t)) = [submission_payload env a s t]"
    using assms(2,3)
    by (auto simp: generate_try_def insert_generation_def initiateVideoGeneration_def Let_def
        split: prod.splits sum.splits http_reply.splits)
  then have "snd (snd (generateActivityVideo env sb world a f c s t)) = [submission_payload env a s t]"
    using False
    by (auto simp: generateActivityVideo_def generateActivityVideo_among_def
        split: prod.splits sum.splits)
  moreover have "map_of (submission_payload env a s t) ''replica_id'' = Some (JString ''default-replica'')"
    using assms(1) by (simp add: submission_payload_def js_or_def)
  ultimately show ?thesis using False by (simp add: getConfigStatus_def)
qed

theorem replica_id_falls_back_witness:
  "\<not> truthy (EXPO_PUBLIC_TAVUS_REPLICA_ID env_no_replica) \<and> auth_user empty_store = Some ''u1''
   \<and> insert_error empty_store = None \<and> apiKey env_no_replica \<noteq> []
   \<and> fst (getConfigStatus env_no_replica)
   \<and> snd (snd (generateActivityVideo env_no_replica empty_store world_rejected morning_run Square
         (Some square_custom) ''Well done'' 7))
       = [[(''replica_id'', JString ''default-replica''), (''script'', JString ''Well done''),
           (''video_name'', JString ''activity_a1_7''), (''fast'', JBool True)]]"
  using replica_id_falls_back [of env_no_replica empty_store "''u1''" world_rejected morning_run
      Square "Some square_custom" "''Well done''" 7]
  by (simp add: env_no_replica_def empty_store_def truthy_def apiKey_def submission_payload_def
      js_or_def morning_run_def string_of_nat.simps digit_char_def)

subsection \<open>Progress percentage\<close>

text \<open>
  C7, as the claim states it, fails: in one session in the processing step the tick at
  120 seconds shows 40 percent and the tick at 121 seconds, where the peak flag turns on
  and the estimate is taken against 480 instead of 240 seconds, shows less.
\<close>

theorem progress_percentage_drops_at_peak_flag:
  "getProgressPercentage (updateProgress 121 (updateProgress 120 processing_state))
     < getProgressPercentage (updateProgress 120 processing_state)"
  by (simp add: processing_state_def enter_processing_def begin_generation_def initial_state_def
      updateProgress_def getProgressPercentage_def Let_def)

text \<open>
  What a tick shows, and that only the last tick matters.
\<close>

lemma tick_percentage:
  assumes "isGenerating st"
  shows "getProgressPercentage (updateProgress e st) =
     (case currentStep st of
        StepCompleted \<Rightarrow> 100
      | StepFailed \<Rightarrow> 0
      | StepInitializing \<Rightarrow> max 10 (min (of_nat e / (if 120 < e then 480 else 240) * 100) 95 * (2 / 10))
      | StepProcessing \<Rightarrow> max 20 (min (of_nat e / (if 120 < e then 480 else 240) * 100) 95 * (8 / 10))
      | StepFinalizing \<Rightarrow> max 85 (min (of_nat e / (if 120 < e then 480 else 240) * 100) 95))"
  using assms
  by (cases "currentStep st") (simp_all add: updateProgress_def getProgressPercentage_def Let_def)

lemma updateProgress_twice:
  "isGenerating st \<Longrightarrow> getProgressPercentage (updateProgress e2 (updateProgress e1 st))
     = getProgressPercentage (updateProgress e2 st)"
  by (simp add: updateProgress_def getProgressPercentage_def Let_def)

lemma scaled_mono:
  fixes x y :: rat
  assumes "0 \<le> x" "x \<le> y"
  shows "min (x / 240 * 100) 95 \<le> min (y / 240 * 100) 95"
    and "min (x / 480 * 100) 95 \<le> min (y / 480 * 100) 95"
  using assms by (simp_all add: min_def)

text \<open>
  C7, amended.  In a generating session whose step does not change, for two ticks with
  elapsed times \<open>e1 \<le> e2\<close> the percentage does not decrease, with one exception: in
  the step \<open>processing\<close>, when \<open>e1\<close> is above 60 and at most 120 seconds and
  \<open>e2\<close> is above 120 and below \<open>2 * e1\<close> seconds, it decreases.  The percentage is at
  most 95 as long as the step is not \<open>completed\<close>; the success transition shows 100 and
  the failure transition 0.
\<close>

theorem progress_percentage_monotone:
  assumes "isGenerating st" "e1 \<le> e2"
  shows "(getProgressPercentage (updateProgress e1 st)
            \<le> getProgressPercentage (updateProgress e2 (updateProgress e1 st)))
           = (\<not> (currentStep st = StepProcessing \<and> 60 < e1 \<and> e1 \<le> 120 \<and> 120 < e2 \<and> e2 < 2 * e1))
       \<and> (currentStep st \<noteq> StepCompleted
            \<longrightarrow> getProgressPercentage (updateProgress e2 (updateProgress e1 st)) \<le> 95)
       \<and> getProgressPercentage (on_success r st) = 100
       \<and> getProgressPercentage (on_error m st) = 0"
proof -
  let ?x = "of_nat e1 :: rat" and ?y = "of_nat e2 :: rat"
  have xy: "0 \<le> ?x" "?x \<le> ?y" using assms(2) by simp_all
  have x120: "(?x \<le> 120) = (e1 \<le> 120)" "(?y \<le> 120) = (e2 \<le> 120)"
    "(60 < ?x) = (60 < e1)" "(?y < 2 * ?x) = (e2 < 2 * e1)"
    using of_nat_le_iff [of e1 120, where ?'a = rat] of_nat_le_iff [of e2 120, where ?'a = rat]
      of_nat_less_iff [of 60 e1, where ?'a = rat] of_nat_less_iff [of e2 "2 * e1", where ?'a = rat]
    by simp_all
  have mono: "(getProgressPercentage (updateProgress e1 st)
            \<le> getProgressPercentage (updateProgress e2 st))
           = (\<not> (currentStep st = StepProcessing \<and> 60 < e1 \<and> e1 \<le> 120 \<and> 120 < e2 \<and> e2 < 2 * e1))"
  proof (cases "120 < e1")
    case True
    then have "120 < e2" using assms(2) by simp
    with True show ?thesis
      using xy by (cases "currentStep st")
        (simp_all add: tick_percentage [OF assms(1)] min_def max_def)
  next
    case lo: False
    show ?thesis
    proof (cases "120 < e2")
      case False
      with lo show ?thesis
        using xy by (cases "currentStep st")
          (simp_all add: tick_percentage [OF assms(1)] min_def max_def)
    next
      case True
      have a: "?x \<le> 120" "120 < ?y" using lo True x120 by simp_all
      show ?thesis
        using lo True a xy x120(3,4) [symmetric]
        by (cases "currentStep st")
          (auto simp: tick_percentage [OF assms(1)] min_def max_def)
    qed
  qed
  have cap: "currentStep st \<noteq> StepCompleted
            \<Longrightarrow> getProgressPercentage (updateProgress e2 st) \<le> 95"
    by (cases "currentStep st") (simp_all add: tick_percentage [OF assms(1)] min_def max_def)
  have "getProgressPercentage (on_success r st) = 100" "getProgressPercentage (on_error m st) = 0"
    by (simp_all add: on_success_def on_error_def getProgressPercentage_def Let_def)
  with mono cap show ?thesis by (simp add: updateProgress_twice [OF assms(1)])
qed

theorem progress_percentage_monotone_witness:
  "isGenerating processing_state \<and> (100::nat) \<le> 119
   \<and> getProgressPercentage (updateProgress 100 processing_state)
        \<le> getProgressPercentage (updateProgress 119 (updateProgress 100 processing_state))
   \<and> currentStep processing_state \<noteq> StepCompleted
   \<and> getProgressPercentage (updateProgress 119 (updateProgress 100 processing_state)) \<le> 95"
  using progress_percentage_monotone [of processing_state 100 119]
  by (simp add: processing_state_def enter_processing_def begin_generation_def)

subsection \<open>The peak flag\<close>

lemma updateProgress_isGenerating: "isGenerating (updateProgress e st) = isGenerating st"
  by (simp add: updateProgress_def Let_def)

lemma fold_updateProgress_peak:
  "isGenerating st \<Longrightarrow> es \<noteq> [] \<Longrightarrow> isPeakUsage (fold updateProgress es st) = (120 < last es)"
proof (induction es arbitrary: st)
  case Nil
  then show ?case by simp
next
  case (Cons e es)
  show ?case
  proof (cases "es = []")
    case True
    with Cons.prems show ?thesis by (simp add: updateProgress_def Let_def)
  next
    case False
    with Cons.prems Cons.IH [of "updateProgress e st"] show ?thesis
      by (simp add: updateProgress_isGenerating)
  qed
qed

text \<open>
  C9, as the claim states it, fails: a session whose tick at 121 seconds has set the peak
  flag ends in failure (the provider rejects the submission), and the failure transition
  writes the flag back to false.
\<close>

theorem peak_flag_cleared_on_failure:
  "isPeakUsage (run_ticks [121] processing_state)
   \<and> \<not> isPeakUsage (fst (snd (generateActivityVideo_hook (Some ''u1'') env_no_replica initial_state
          empty_store world_rejected morning_run square_custom ''Well done'' 0 [121])))"
  by (simp add: run_ticks_def processing_state_def enter_processing_def begin_generation_def
      initial_state_def updateProgress_def Let_def generateActivityVideo_hook_def getConfigStatus_def
      apiKey_def env_no_replica_def empty_store_def generateActivityVideo_def
      generateActivityVideo_among_def generate_try_def mark_failed_def apply_update_def
      insert_generation_def initiateVideoGeneration_def world_rejected_def on_error_def
      no_result_def split: prod.splits)

text \<open>
  C9, amended.  While a session is generating, every tick sets the flag to
  \<open>elapsed > 120\<close>; so after ticks with non-decreasing elapsed times of which the first
  is beyond 120 seconds the flag is true.  The terminal transition overwrites it: failure
  writes false, success writes \<open>total_time > 120\<close> from the poller's result, and
  \<open>resetState\<close> and the start of the next call write false.
\<close>

theorem peak_flag_sticky_while_active:
  assumes "isGenerating st" "sorted (e # es)" "120 < e"
  shows "(\<forall>e'. isPeakUsage (updateProgress e' st) = (120 < e'))
       \<and> isPeakUsage (run_ticks (e # es) st)
       \<and> \<not> isPeakUsage (on_error m (run_ticks (e # es) st))
       \<and> isPeakUsage (on_success r (run_ticks (e # es) st))
            = (case total_time r of None \<Rightarrow> False | Some n \<Rightarrow> 120 < n)
       \<and> \<not> isPeakUsage (resetState (run_ticks (e # es) st))
       \<and> \<not> isPeakUsage (begin_generation (run_ticks (e # es) st))"
proof -
  have "e \<le> last (e # es)" using assms(2) by (cases es) (auto simp: last_in_set)
  then have "120 < last (e # es)" using assms(3) by linarith
  then have sticky: "isPeakUsage (run_ticks (e # es) st)"
    using fold_updateProgress_peak [of st "e # es"] assms(1) by (simp add: run_ticks_def)
  have thr: "\<forall>e'. isPeakUsage (updateProgress e' st) = (120 < e')"
    using assms(1) by (simp add: updateProgress_def Let_def)
  have "isPeakUsage (on_success r (run_ticks (e # es) st))
            = (case total_time r of None \<Rightarrow> False | Some n \<Rightarrow> 120 < n)"
    by (auto simp: on_success_def Let_def split: option.splits)
  with sticky thr show ?thesis
    by (simp add: on_error_def resetState_def begin_generation_def)
qed

theorem peak_flag_sticky_while_active_witness:
  "isGenerating processing_state \<and> sorted [121, 130, 200 :: nat] \<and> (120::nat) < 121
   \<and> isPeakUsage (run_ticks [121, 130, 200] processing_state)
   \<and> \<not> isPeakUsage (on_error ''x'' (run_ticks [121, 130, 200] processing_state))"
  using peak_flag_sticky_while_active [of processing_state 121 "[130, 200]" "''x''"]
  by (simp add: processing_state_def enter_processing_def begin_generation_def)

subsection \<open>A second call while one is in flight\<close>

text \<open>
  C6, as the claim states it, fails: the hook is in the processing step of a call whose
  record is in the store; a second call is not rejected, it resolves with a video, a
  second record is created and a second submission is posted.
\<close>

theorem second_call_starts_second_generation:
  "isGenerating (run_ticks [10] processing_state)
   \<and> currentStep (run_ticks [10] processing_state) = StepProcessing
   \<and> (case generateActivityVideo_hook (Some ''u1'') env_no_replica (run_ticks [10] processing_state)
              busy_store world_ok morning_run square_custom ''Well done'' 7 []
       of (res, st', sb', posts) \<Rightarrow>
            res = Inr (Some ''https://x/v.mp4'', None, Some ''2'')
          \<and> map record_id (video_generations sb') = [1, 2]
          \<and> length posts = 1)"
  by (simp add: run_ticks_def processing_state_def enter_processing_def begin_generation_def
      initial_state_def updateProgress_def Let_def generateActivityVideo_hook_def getConfigStatus_def
      apiKey_def env_no_replica_def busy_store_def generateActivityVideo_def
      generateActivityVideo_among_def generate_try_def poll_and_finish_def apply_update_def
      insert_generation_def new_record_id_def initiateVideoGeneration_def world_ok_def
      update_where_def js_or_def truthy_def
      pollVideoCompletionEnhanced_def poll_loop_unfold poll_body_def POLLING_CONFIG_def
      completed_reply_def getVideoStatus_def no_result_def morning_run_def
      string_of_nat.simps digit_char_def split: prod.splits)

text \<open>The first \<open>setState\<close> of a call overwrites every field of the state.\<close>

lemma begin_generation_const: "begin_generation st = begin_generation initial_state"
  by (cases st) (simp add: begin_generation_def initial_state_def)

lemma generateActivityVideo_creates_record:
  assumes "apiKey env \<noteq> []" "auth_user sb = Some u" "insert_error sb = None"
  shows "length (video_generations (fst (snd (generateActivityVideo env sb w a f c s t))))
           = Suc (length (video_generations sb))
       \<and> snd (snd (generateActivityVideo env sb w a f c s t)) = [submission_payload env a s t]"
proof -
  obtain x s' posts where g: "generate_try id id env sb w a s t = (x, s', posts)"
    by (cases "generate_try id id env sb w a s t")
  have len_upd: "length (video_generations (update_where sel upd sb0)) = length (video_generations sb0)"
    for sel upd sb0
    by (simp add: update_where_def)
  have len_au: "apply_update st sel upd sb0 = Inr sb1
      \<Longrightarrow> length (video_generations sb1) = length (video_generations sb0)" for st sel upd sb0 sb1
    by (cases "update_outcome sb0 st") (auto simp: apply_update_def len_upd)
  have len_mf: "length (video_generations (mark_failed m sb0)) = length (video_generations sb0)"
    for m sb0
    by (cases "update_outcome sb0 StatusFailed")
       (auto simp: mark_failed_def apply_update_def len_upd split: option.splits)
  have len_pf: "poll_and_finish id env w t rid job sb0 = (y, sb1)
      \<Longrightarrow> length (video_generations sb1) = length (video_generations sb0)" for rid job sb0 y sb1
    by (auto simp: poll_and_finish_def Let_def split: if_splits sum.splits dest: len_au)
  have "length (video_generations s') = Suc (length (video_generations sb)) \<and> posts = [submission_payload env a s t]"
    using assms(2,3) g
    by (auto simp: generate_try_def insert_generation_def initiateVideoGeneration_def Let_def
        split: prod.splits sum.splits http_reply.splits dest!: len_au len_pf)
  then show ?thesis
    using assms(1) g
    by (cases x) (simp_all add: generateActivityVideo_def generateActivityVideo_among_def len_mf)
qed

text \<open>
  C6, amended.  The hook's \<open>generateActivityVideo\<close> does not look at the session state:
  called by a signed-in user it does the same, and leaves the same state, whatever state
  the hook is in (idle, processing, terminal).  With the API key set and a store that
  accepts the insert, every call creates one more record and posts one submission.
\<close>

theorem generate_has_no_inflight_guard:
  assumes "user \<noteq> None" "apiKey env \<noteq> []" "auth_user sb = Some u" "insert_error sb = None"
  shows "generateActivityVideo_hook user env st sb w a c s t ticks
           = generateActivityVideo_hook user env initial_state sb w a c s t ticks
       \<and> length (video_generations (fst (snd (snd
            (generateActivityVideo_hook user env st sb w a c s t ticks)))))
           = Suc (length (video_generations sb))
       \<and> snd (snd (snd (generateActivityVideo_hook user env st sb w a c s t ticks)))
           = [submission_payload env a s t]"
proof -
  have same: "generateActivityVideo_hook user env st sb w a c s t ticks
           = generateActivityVideo_hook user env initial_state sb w a c s t ticks"
    using assms(1)
    by (cases user) (simp_all add: generateActivityVideo_hook_def begin_generation_const [of st])
  have "fst (getConfigStatus env)" using assms(2) by (simp add: getConfigStatus_def)
  then show ?thesis
    using same assms generateActivityVideo_creates_record [OF assms(2,3,4), of w a "format c" "Some c" s t]
    by (auto simp: generateActivityVideo_hook_def Let_def split: prod.splits)
qed

theorem generate_has_no_inflight_guard_witness:
  "Some ''u1'' \<noteq> None \<and> apiKey env_no_replica \<noteq> [] \<and> auth_user busy_store = Some ''u1''
   \<and> insert_error busy_store = None
   \<and> generateActivityVideo_hook (Some ''u1'') env_no_replica (run_ticks [10] processing_state)
        busy_store world_ok morning_run square_custom ''Well done'' 7 []
      = generateActivityVideo_hook (Some ''u1'') env_no_replica initial_state
        busy_store world_ok morning_run square_custom ''Well done'' 7 []
   \<and> length (video_generations (fst (snd (snd
        (generateActivityVideo_hook (Some ''u1'') env_no_replica (run_ticks [10] processing_state)
           busy_store world_ok morning_run square_custom ''Well done'' 7 [])))))
      = Suc (length (video_generations busy_store))"
proof -
  have p: "Some ''u1'' \<noteq> None" "apiKey env_no_replica \<noteq> []" "auth_user busy_store = Some ''u1''"
    "insert_error busy_store = None"
    by (simp_all add: apiKey_def env_no_replica_def busy_store_def)
  show ?thesis
    using p generate_has_no_inflight_guard [OF p, of "run_ticks [10] processing_state" world_ok
      morning_run square_custom "''Well done''" 7 "[]"]
    by blast
qed

subsection \<open>The record of a run\<close>

text \<open>The id given to a new record is not the id of any record in the table.\<close>

lemma fold_max_ge: "(a::nat) \<le> fold max xs a"
  by (induction xs arbitrary: a) (auto intro: order_trans [OF max.cobounded2])

lemma fold_max_mem: "x \<in> set xs \<Longrightarrow> (x::nat) \<le> fold max xs a"
proof (induction xs arbitrary: a)
  case Nil
  then show ?case by simp
next
  case (Cons y ys)
  then show ?case
    using fold_max_ge [of "max y a" ys] by auto
qed

lemma new_record_id_fresh: "r \<in> set rows \<Longrightarrow> record_id r \<noteq> new_record_id rows"
  using fold_max_mem [of "record_id r" "map record_id rows" 0]
  by (auto simp: new_record_id_def)

lemma filter_new_id [simp]:
  "filter (\<lambda>r. record_id r = new_record_id rows) rows = []"
  by (auto simp: filter_empty_conv dest: new_record_id_fresh)

lemma keeps_record_view:
  assumes "keeps_record rid f" "n \<le> length (status_writes s)"
  shows "record_rows rid (f s) = record_rows rid s"
    and "writes_since n rid (f s) = writes_since n rid s"
    and "n \<le> length (status_writes (f s))"
    and "auth_user_on_error (f s) = auth_user_on_error s"
    and "update_outcome (f s) = update_outcome s"
proof -
  from assms(1) obtain ws where ws: "status_writes (f s) = status_writes s @ ws"
      "filter (\<lambda>w. fst w = rid) ws = []"
    unfolding keeps_record_def by blast
  show "record_rows rid (f s) = record_rows rid s" "auth_user_on_error (f s) = auth_user_on_error s"
    "update_outcome (f s) = update_outcome s"
    using assms(1) unfolding keeps_record_def by blast+
  show "writes_since n rid (f s) = writes_since n rid s"
    using ws assms(2) by (simp add: writes_since_def)
  show "n \<le> length (status_writes (f s))" using ws assms(2) by simp
qed

lemma writes_of_selected:
  "map snd (filter (\<lambda>w. fst w = rid) (map (\<lambda>r. (record_id r, g r)) (filter sel rows)))
     = map g (filter sel (filter (\<lambda>r. record_id r = rid) rows))"
  by (induction rows) auto

lemma update_where_view:
  assumes "\<And>r. record_id (upd r) = record_id r" "n \<le> length (status_writes s)"
  shows "record_rows rid (update_where sel upd s)
           = map (\<lambda>r. if sel r then upd r else r) (record_rows rid s)"
    and "writes_since n rid (update_where sel upd s)
           = writes_since n rid s @ map (\<lambda>r. record_status (upd r)) (filter sel (record_rows rid s))"
    and "n \<le> length (status_writes (update_where sel upd s))"
    and "auth_user_on_error (update_where sel upd s) = auth_user_on_error s"
    and "update_outcome (update_where sel upd s) = update_outcome s"
proof -
  have "filter (\<lambda>r. record_id r = rid) (map (\<lambda>r. if sel r then upd r else r) rows)
          = map (\<lambda>r. if sel r then upd r else r) (filter (\<lambda>r. record_id r = rid) rows)" for rows
    using assms(1) by (induction rows) auto
  then show "record_rows rid (update_where sel upd s)
           = map (\<lambda>r. if sel r then upd r else r) (record_rows rid s)"
    by (simp add: record_rows_def update_where_def)
  show "writes_since n rid (update_where sel upd s)
           = writes_since n rid s @ map (\<lambda>r. record_status (upd r)) (filter sel (record_rows rid s))"
    using assms(2) writes_of_selected [of rid "\<lambda>r. record_status (upd r)" sel "video_generations s"]
    by (simp add: writes_since_def update_where_def record_rows_def)
  show "n \<le> length (status_writes (update_where sel upd s))"
    using assms(2) by (simp add: update_where_def)
  show "auth_user_on_error (update_where sel upd s) = auth_user_on_error s"
    "update_outcome (update_where sel upd s) = update_outcome s"
    by (simp_all add: update_where_def)
qed

lemma insert_generation_view:
  assumes "insert_generation u run script sb = Inr (rid, sb1)"
  shows "rid = new_record_id (video_generations sb)"
    and "record_rows rid sb1 = [\<lparr>record_id = rid, user_id = u, run_id = run, tavus_job_id = None,
               record_status = StatusPending, record_video_url = None,
               script_content = script, error_message = None\<rparr>]"
    and "writes_since (length (status_writes sb)) rid sb1 = [StatusPending]"
    and "length (status_writes sb) \<le> length (status_writes sb1)"
    and "auth_user_on_error sb1 = auth_user_on_error sb"
    and "update_outcome sb1 = update_outcome sb"
    and "length (video_generations sb1) = Suc (length (video_generations sb))"
  using assms
  by (auto simp: insert_generation_def Let_def record_rows_def writes_since_def split: option.splits)

lemma apply_update_cases:
  obtains (applied) "update_outcome s st = Applied" "apply_update st sel upd s = Inr (update_where sel upd s)"
  | (refused) "update_outcome s st = Refused" "apply_update st sel upd s = Inr s"
  | (thrown) m where "update_outcome s st = Thrown m" "apply_update st sel upd s = Inl m"
  by (cases "update_outcome s st") (simp_all add: apply_update_def)

text \<open>
  How the steps of a run act on the record it has created: the insert creates it
  \<open>pending\<close>, other clients that keep the record leave it as it is, an applied update
  by id writes the new status, and the \<open>catch\<close> block writes \<open>failed\<close> when it finds
  the owner signed in, the update is applied and the record is \<open>pending\<close> or
  \<open>processing\<close>.
\<close>

lemma tracks_insert:
  assumes "insert_generation u run script sb = Inr (rid, sb1)"
  shows "tracks sb u run sb1 StatusPending [StatusPending]"
  using insert_generation_view [OF assms] unfolding tracks_def by simp

lemma tracks_keep:
  assumes "keeps_record (new_record_id (video_generations sb)) f" "tracks sb u run s st h"
  shows "tracks sb u run (f s) st h"
proof -
  have n: "length (status_writes sb) \<le> length (status_writes s)"
    using assms(2) unfolding tracks_def by blast
  show ?thesis
    using assms(2) keeps_record_view [OF assms(1) n] unfolding tracks_def by simp
qed

lemma tracks_update_by_id:
  assumes "tracks sb u run s st h"
    and "\<And>r. record_id (upd r) = record_id r" "\<And>r. user_id (upd r) = user_id r"
    and "\<And>r. run_id (upd r) = run_id r" "\<And>r. record_status (upd r) = st'"
  shows "tracks sb u run
           (update_where (\<lambda>r. record_id r = new_record_id (video_generations sb)) upd s)
           st' (h @ [st'])"
proof -
  let ?rid = "new_record_id (video_generations sb)"
  have n: "length (status_writes sb) \<le> length (status_writes s)"
    using assms(1) unfolding tracks_def by blast
  obtain r where r: "record_rows ?rid s = [r]" "user_id r = u" "run_id r = run"
    using assms(1) unfolding tracks_def by blast
  have "r \<in> set (filter (\<lambda>r. record_id r = ?rid) (video_generations s))"
    using r(1) by (simp add: record_rows_def)
  then have rid: "record_id r = ?rid" by simp
  let ?sel = "\<lambda>r. record_id r = ?rid"
  have v1: "record_rows ?rid (update_where ?sel upd s)
           = map (\<lambda>r. if ?sel r then upd r else r) (record_rows ?rid s)"
    by (rule update_where_view(1) [OF assms(2) n])
  have v2: "writes_since (length (status_writes sb)) ?rid (update_where ?sel upd s)
           = writes_since (length (status_writes sb)) ?rid s
             @ map (\<lambda>r. record_status (upd r)) (filter ?sel (record_rows ?rid s))"
    by (rule update_where_view(2) [OF assms(2) n])
  have v3: "length (status_writes sb) \<le> length (status_writes (update_where ?sel upd s))"
    by (rule update_where_view(3) [OF assms(2) n])
  have v4: "auth_user_on_error (update_where ?sel upd s) = auth_user_on_error s"
    "update_outcome (update_where ?sel upd s) = update_outcome s"
    by (simp_all add: update_where_def)
  have "record_rows ?rid (update_where ?sel upd s) = [upd r]"
    using v1 r(1) rid by simp
  moreover have "writes_since (length (status_writes sb)) ?rid (update_where ?sel upd s) = h @ [st']"
    using v2 r(1) rid assms(1,5) unfolding tracks_def by simp
  ultimately show ?thesis
    using v3 v4 assms(1,3,4,5) r(2,3) unfolding tracks_def by simp
qed

lemma tracks_unique:
  assumes "tracks sb u run s st h" "tracks sb u run s st' h'"
  shows "st' = st" "h' = h"
  using assms unfolding tracks_def by auto

lemma tracks_row_id:
  assumes "tracks sb u run s st h"
  obtains r where "record_rows (new_record_id (video_generations sb)) s = [r]"
    "record_id r = new_record_id (video_generations sb)" "user_id r = u" "run_id r = run"
    "record_status r = st"
proof -
  let ?rid = "new_record_id (video_generations sb)"
  obtain r where r: "record_rows ?rid s = [r]" "user_id r = u" "run_id r = run" "record_status r = st"
    using assms unfolding tracks_def by blast
  have "r \<in> set (filter (\<lambda>r. record_id r = ?rid) (video_generations s))"
    using r(1) by (simp add: record_rows_def)
  then have "record_id r = ?rid" by simp
  with r that show ?thesis by blast
qed

lemma tracks_mark_failed:
  assumes "tracks sb u run s st h"
  shows "if auth_user_on_error sb = Some u \<and> update_outcome sb StatusFailed = Applied
            \<and> (st = StatusPending \<or> st = StatusProcessing)
         then tracks sb u run (mark_failed m s) StatusFailed (h @ [StatusFailed])
            \<and> (\<exists>r. record_rows (new_record_id (video_generations sb)) (mark_failed m s) = [r]
                    \<and> error_message r = Some m)
         else tracks sb u run (mark_failed m s) st h"
proof -
  let ?rid = "new_record_id (video_generations sb)"
  let ?n = "length (status_writes sb)"
  have f: "auth_user_on_error s = auth_user_on_error sb" "update_outcome s = update_outcome sb"
    and n: "?n \<le> length (status_writes s)" and h: "writes_since ?n ?rid s = h"
    using assms unfolding tracks_def by blast+
  obtain r where r: "record_rows ?rid s = [r]" "record_id r = ?rid" "user_id r = u" "run_id r = run"
    "record_status r = st"
    using assms by (rule tracks_row_id)
  show ?thesis
  proof (cases "auth_user_on_error sb")
    case None
    then have "mark_failed m s = s" using f by (simp add: mark_failed_def)
    then show ?thesis using None assms by simp
  next
    case (Some u')
    let ?sel = "\<lambda>r. user_id r = u' \<and> record_status r \<in> {StatusPending, StatusProcessing}"
    let ?upd = "\<lambda>r. r\<lparr>record_status := StatusFailed, error_message := Some m\<rparr>"
    show ?thesis
    proof (cases "update_outcome sb StatusFailed = Applied")
      case False
      then have "mark_failed m s = s"
        using f Some by (cases "update_outcome sb StatusFailed") (simp_all add: mark_failed_def apply_update_def)
      then show ?thesis using False assms by simp
    next
      case True
      then have mf: "mark_failed m s = update_where ?sel ?upd s"
        using f Some by (simp add: mark_failed_def apply_update_def)
      have id: "\<And>r. record_id (?upd r) = record_id r" by simp
      have v1: "record_rows ?rid (update_where ?sel ?upd s)
           = map (\<lambda>r. if ?sel r then ?upd r else r) (record_rows ?rid s)"
        by (rule update_where_view(1) [OF id n])
      have v2: "writes_since ?n ?rid (update_where ?sel ?upd s)
           = writes_since ?n ?rid s @ map (\<lambda>r. record_status (?upd r)) (filter ?sel (record_rows ?rid s))"
        by (rule update_where_view(2) [OF id n])
      have v3: "?n \<le> length (status_writes (update_where ?sel ?upd s))"
        by (rule update_where_view(3) [OF id n])
      have v4: "auth_user_on_error (update_where ?sel ?upd s) = auth_user_on_error s"
        "update_outcome (update_where ?sel ?upd s) = update_outcome s"
        by (simp_all add: update_where_def)
      show ?thesis
      proof (cases "?sel r")
        case sel: True
        then have "u' = u" "st = StatusPending \<or> st = StatusProcessing" using r by auto
        moreover have "record_rows ?rid (mark_failed m s) = [?upd r]"
          unfolding mf v1 r(1) using sel by auto
        moreover have "writes_since ?n ?rid (mark_failed m s) = h @ [StatusFailed]"
          unfolding mf v2 r(1) using sel h by auto
        ultimately show ?thesis
          using Some True v3 v4 f r(3,4) unfolding tracks_def by (simp add: mf)
      next
        case nsel: False
        then have c: "\<not> (u' = u \<and> (st = StatusPending \<or> st = StatusProcessing))" using r by auto
        have "record_rows ?rid (mark_failed m s) = [r]"
          unfolding mf v1 r(1) using nsel by auto
        moreover have "writes_since ?n ?rid (mark_failed m s) = h"
          unfolding mf v2 r(1) using nsel h by auto
        ultimately have "tracks sb u run (mark_failed m s) st h"
          using v3 v4 f r unfolding tracks_def by (simp add: mf)
        then show ?thesis using c Some by auto
      qed
    qed
  qed
qed

text \<open>The record at the end of the \<open>try\<close> block.\<close>

lemma poll_and_finish_tracks:
  assumes "tracks sb u run sb2 st h"
    and "keeps_record (new_record_id (video_generations sb)) d2"
    and "poll_and_finish d2 env w t (new_record_id (video_generations sb)) job sb2 = (x, s)"
  shows "case x of
           Inl m \<Rightarrow> tracks sb u run s st h
         | Inr res \<Rightarrow> success res
             \<and> (update_outcome sb StatusCompleted = Applied
                  \<and> tracks sb u run s StatusCompleted (h @ [StatusCompleted])
                \<or> update_outcome sb StatusCompleted = Refused \<and> tracks sb u run s st h)"
proof -
  let ?rid = "new_record_id (video_generations sb)"
  let ?pr = "fst (pollVideoCompletionEnhanced (apiKey env) (status_replies w) job (t + submit_latency w))"
  let ?upd = "\<lambda>r. r\<lparr>record_status := StatusCompleted, record_video_url := videoUrl ?pr\<rparr>"
  have k: "tracks sb u run (d2 sb2) st h" by (rule tracks_keep [OF assms(2,1)])
  then have uo: "update_outcome (d2 sb2) = update_outcome sb" unfolding tracks_def by blast
  show ?thesis
  proof (cases "success ?pr \<and> truthy (videoUrl ?pr)")
    case False
    then have "x = Inl (the (js_or (error ?pr) (Some ''Video generation failed - no video URL returned'')))"
      "s = d2 sb2"
      using assms(3) by (auto simp: poll_and_finish_def Let_def)
    then show ?thesis using k by simp
  next
    case True
    show ?thesis
    proof (cases rule: apply_update_cases [of "d2 sb2" StatusCompleted "\<lambda>r. record_id r = ?rid" ?upd])
      case applied
      then have "s = update_where (\<lambda>r. record_id r = ?rid) ?upd (d2 sb2)" "\<exists>res. x = Inr res \<and> success res"
        using assms(3) True by (auto simp: poll_and_finish_def Let_def no_result_def)
      moreover have "tracks sb u run (update_where (\<lambda>r. record_id r = ?rid) ?upd (d2 sb2))
          StatusCompleted (h @ [StatusCompleted])"
        by (rule tracks_update_by_id [OF k]) simp_all
      ultimately show ?thesis using applied(1) uo by auto
    next
      case refused
      then have "s = d2 sb2" "\<exists>res. x = Inr res \<and> success res"
        using assms(3) True by (auto simp: poll_and_finish_def Let_def no_result_def)
      then show ?thesis using refused(1) uo k by auto
    next
      case (thrown m)
      then have "x = Inl m" "s = d2 sb2"
        using assms(3) True by (auto simp: poll_and_finish_def Let_def)
      then show ?thesis using k by simp
    qed
  qed
qed

lemma generate_try_tracks:
  assumes k1: "keeps_record (new_record_id (video_generations sb)) d1"
    and k2: "keeps_record (new_record_id (video_generations sb)) d2"
    and u: "auth_user sb = Some u" and ins: "insert_error sb = None"
    and run: "generate_try d1 d2 env sb w a script t = (x, s, posts)"
  shows "case x of
           Inl m \<Rightarrow> tracks sb u (activity_id a) s StatusPending [StatusPending]
              \<or> update_outcome sb StatusProcessing = Applied
                \<and> tracks sb u (activity_id a) s StatusProcessing [StatusPending, StatusProcessing]
         | Inr res \<Rightarrow> success res
             \<and> (update_outcome sb StatusProcessing = Applied \<and> update_outcome sb StatusCompleted = Applied
                  \<and> tracks sb u (activity_id a) s StatusCompleted
                       [StatusPending, StatusProcessing, StatusCompleted]
                \<or> update_outcome sb StatusProcessing = Applied \<and> update_outcome sb StatusCompleted = Refused
                  \<and> tracks sb u (activity_id a) s StatusProcessing [StatusPending, StatusProcessing]
                \<or> update_outcome sb StatusProcessing = Refused \<and> update_outcome sb StatusCompleted = Applied
                  \<and> tracks sb u (activity_id a) s StatusCompleted [StatusPending, StatusCompleted]
                \<or> update_outcome sb StatusProcessing = Refused \<and> update_outcome sb StatusCompleted = Refused
                  \<and> tracks sb u (activity_id a) s StatusPending [StatusPending])"
proof -
  let ?rid = "new_record_id (video_generations sb)"
  obtain rid sb1 where i: "insert_generation u (activity_id a) script sb = Inr (rid, sb1)"
    using ins by (simp add: insert_generation_def Let_def)
  have rid: "rid = ?rid" by (rule insert_generation_view(1) [OF i])
  have t0: "tracks sb u (activity_id a) sb1 StatusPending [StatusPending]"
    by (rule tracks_insert [OF i])
  have t1: "tracks sb u (activity_id a) (d1 sb1) StatusPending [StatusPending]"
    by (rule tracks_keep [OF k1 t0])
  then have uo: "update_outcome (d1 sb1) = update_outcome sb" unfolding tracks_def by blast
  obtain ir payload where init: "initiateVideoGeneration env w a script t = (ir, payload)"
    by (cases "initiateVideoGeneration env w a script t")
  show ?thesis
  proof (cases ir)
    case (Inl m)
    then have "x = Inl m" "s = d1 sb1"
      using run u i init by (simp_all add: generate_try_def)
    then show ?thesis using t1 by simp
  next
    case (Inr js)
    obtain job jst where js: "js = (job, jst)" by (cases js)
    let ?upd = "\<lambda>r. r\<lparr>tavus_job_id := Some job, record_status := StatusProcessing\<rparr>"
    show ?thesis
    proof (cases rule: apply_update_cases [of "d1 sb1" StatusProcessing "\<lambda>r. record_id r = ?rid" ?upd])
      case (thrown m)
      then have "x = Inl m" "s = d1 sb1"
        using run u i init Inr js rid by (simp_all add: generate_try_def)
      then show ?thesis using t1 by simp
    next
      case applied
      let ?sb2 = "update_where (\<lambda>r. record_id r = ?rid) ?upd (d1 sb1)"
      have t2: "tracks sb u (activity_id a) ?sb2 StatusProcessing [StatusPending, StatusProcessing]"
        using tracks_update_by_id [OF t1, of ?upd StatusProcessing] by simp
      obtain x' s' where pf: "poll_and_finish d2 env w t ?rid job ?sb2 = (x', s')"
        by (cases "poll_and_finish d2 env w t ?rid job ?sb2")
      have "x = x'" "s = s'"
        using run u i init Inr js rid applied(2) pf by (simp_all add: generate_try_def)
      then show ?thesis
        using poll_and_finish_tracks [OF t2 k2 pf] applied(1) uo
        by (cases x') auto
    next
      case refused
      obtain x' s' where pf: "poll_and_finish d2 env w t ?rid job (d1 sb1) = (x', s')"
        by (cases "poll_and_finish d2 env w t ?rid job (d1 sb1)")
      have "x = x'" "s = s'"
        using run u i init Inr js rid refused(2) pf by (simp_all add: generate_try_def)
      then show ?thesis
        using poll_and_finish_tracks [OF t1 k2 pf] refused(1) uo
        by (cases x') auto
    qed
  qed
qed

lemma generate_try_no_record:
  assumes "auth_user sb = None \<or> insert_error sb \<noteq> None"
  shows "\<exists>m. generate_try d1 d2 env sb w a script t = (Inl m, sb, [])"
  using assms
  by (auto simp: generate_try_def insert_generation_def split: option.splits)

lemma tracks_sequence: "tracks sb u run s st h \<Longrightarrow> run_status_sequence sb s = h"
  by (simp add: tracks_def run_status_sequence_def writes_since_def)

lemma mark_failed_no_record: "run_status_sequence sb (mark_failed m sb) = []"
proof -
  have "writes_since (length (status_writes sb)) (new_record_id (video_generations sb))
          (update_where sel upd sb) = []"
    if "\<And>r. record_id (upd r) = record_id r" for sel upd
    using update_where_view(2) [OF that order_refl, of sb "new_record_id (video_generations sb)" sel]
    by (simp add: writes_since_def record_rows_def)
  then have "writes_since (length (status_writes sb)) (new_record_id (video_generations sb))
          (mark_failed m sb) = []"
    by (cases "update_outcome sb StatusFailed")
       (auto simp: mark_failed_def apply_update_def writes_since_def split: option.splits)
  then show ?thesis by (simp add: run_status_sequence_def writes_since_def)
qed

lemma keeps_record_id: "keeps_record rid id"
  by (simp add: keeps_record_def)





text \<open>The ways through \<open>generateActivityVideo\<close>, with what each leaves of the record.\<close>

lemma generateActivityVideo_among_cases:
  assumes "keeps_record (new_record_id (video_generations sb)) d1"
    and "keeps_record (new_record_id (video_generations sb)) d2"
  obtains
    (no_record) "\<not> success (fst (generateActivityVideo_among d1 d2 env sb w a f c script t))"
      "run_status_sequence sb (fst (snd (generateActivityVideo_among d1 d2 env sb w a f c script t))) = []"
  | (thrown) u m s posts st h where "apiKey env \<noteq> []" "auth_user sb = Some u" "insert_error sb = None"
      "generate_try d1 d2 env sb w a script t = (Inl m, s, posts)"
      "generateActivityVideo_among d1 d2 env sb w a f c script t
         = (no_result\<lparr>error := Some m\<rparr>, mark_failed m s, posts)"
      "tracks sb u (activity_id a) s st h"
      "st = StatusPending \<and> h = [StatusPending]
       \<or> update_outcome sb StatusProcessing = Applied \<and> st = StatusProcessing
         \<and> h = [StatusPending, StatusProcessing]"
  | (returned) u res s posts st h where "apiKey env \<noteq> []" "auth_user sb = Some u" "insert_error sb = None"
      "generateActivityVideo_among d1 d2 env sb w a f c script t = (res, s, posts)"
      "success res" "tracks sb u (activity_id a) s st h"
      "update_outcome sb StatusProcessing = Applied \<and> update_outcome sb StatusCompleted = Applied
          \<and> st = StatusCompleted \<and> h = [StatusPending, StatusProcessing, StatusCompleted]
       \<or> update_outcome sb StatusProcessing = Applied \<and> update_outcome sb StatusCompleted = Refused
          \<and> st = StatusProcessing \<and> h = [StatusPending, StatusProcessing]
       \<or> update_outcome sb StatusProcessing = Refused \<and> update_outcome sb StatusCompleted = Applied
          \<and> st = StatusCompleted \<and> h = [StatusPending, StatusCompleted]
       \<or> update_outcome sb StatusProcessing = Refused \<and> update_outcome sb StatusCompleted = Refused
          \<and> st = StatusPending \<and> h = [StatusPending]"
proof (cases "apiKey env = []")
  case True
  then have "generateActivityVideo_among d1 d2 env sb w a f c script t
      = (no_result\<lparr>error := Some api_key_missing_msg\<rparr>, sb, [])"
    by (simp add: generateActivityVideo_among_def)
  then show ?thesis
    by (intro no_record) (simp_all add: no_result_def run_status_sequence_def)
next
  case key: False
  show ?thesis
  proof (cases "auth_user sb = None \<or> insert_error sb \<noteq> None")
    case True
    then obtain m where "generate_try d1 d2 env sb w a script t = (Inl m, sb, [])"
      using generate_try_no_record by blast
    then have "generateActivityVideo_among d1 d2 env sb w a f c script t
        = (no_result\<lparr>error := Some m\<rparr>, mark_failed m sb, [])"
      using key by (simp add: generateActivityVideo_among_def)
    then show ?thesis
      by (intro no_record) (simp_all add: no_result_def mark_failed_no_record)
  next
    case False
    then obtain u where u: "auth_user sb = Some u" and ins: "insert_error sb = None" by auto
    obtain x s posts where g: "generate_try d1 d2 env sb w a script t = (x, s, posts)"
      by (cases "generate_try d1 d2 env sb w a script t")
    note tr = generate_try_tracks [OF assms u ins g]
    show ?thesis
    proof (cases x)
      case (Inl m)
      have G: "generateActivityVideo_among d1 d2 env sb w a f c script t
          = (no_result\<lparr>error := Some m\<rparr>, mark_failed m s, posts)"
        using key g Inl by (simp add: generateActivityVideo_among_def)
      from tr Inl consider
          "tracks sb u (activity_id a) s StatusPending [StatusPending]"
        | "update_outcome sb StatusProcessing = Applied"
          "tracks sb u (activity_id a) s StatusProcessing [StatusPending, StatusProcessing]"
        by auto
      then show ?thesis
      proof cases
        case 1
        show ?thesis by (rule thrown [OF key u ins g [unfolded Inl] G 1]) simp
      next
        case 2
        show ?thesis by (rule thrown [OF key u ins g [unfolded Inl] G 2(2)]) (simp add: 2(1))
      qed
    next
      case (Inr res)
      have G: "generateActivityVideo_among d1 d2 env sb w a f c script t = (res, s, posts)"
        using key g Inr by (simp add: generateActivityVideo_among_def)
      from tr Inr have suc: "success res" by simp
      from tr Inr consider
          "update_outcome sb StatusProcessing = Applied" "update_outcome sb StatusCompleted = Applied"
          "tracks sb u (activity_id a) s StatusCompleted [StatusPending, StatusProcessing, StatusCompleted]"
        | "update_outcome sb StatusProcessing = Applied" "update_outcome sb StatusCompleted = Refused"
          "tracks sb u (activity_id a) s StatusProcessing [StatusPending, StatusProcessing]"
        | "update_outcome sb StatusProcessing = Refused" "update_outcome sb StatusCompleted = Applied"
          "tracks sb u (activity_id a) s StatusCompleted [StatusPending, StatusCompleted]"
        | "update_outcome sb StatusProcessing = Refused" "update_outcome sb StatusCompleted = Refused"
          "tracks sb u (activity_id a) s StatusPending [StatusPending]"
        by auto
      then show ?thesis
      proof cases
        case 1
        show ?thesis by (rule returned [OF key u ins G suc 1(3)]) (simp add: 1)
      next
        case 2
        show ?thesis by (rule returned [OF key u ins G suc 2(3)]) (simp add: 2)
      next
        case 3
        show ?thesis by (rule returned [OF key u ins G suc 3(3)]) (simp add: 3)
      next
        case 4
        show ?thesis by (rule returned [OF key u ins G suc 4(3)]) (simp add: 4)
      qed
    qed
  qed
qed

text \<open>The definitions unfolded to run the service on a concrete store and provider.\<close>

lemmas run_simps = generateActivityVideo_def generateActivityVideo_among_def generate_try_def
  poll_and_finish_def apply_update_def apiKey_def env_no_replica_def
  insert_generation_def new_record_id_def initiateVideoGeneration_def
  mark_failed_def update_where_def Let_def js_or_def truthy_def
  pollVideoCompletionEnhanced_def poll_loop_unfold poll_body_def POLLING_CONFIG_def
  completed_reply_def getVideoStatus_def no_result_def morning_run_def
  world_ok_def world_rejected_def run_status_sequence_def

subsection \<open>Order of the status writes\<close>

text \<open>
  C5, as the claim states it, fails.  When the provider rejects the submission, the
  record is created \<open>pending\<close> and the next status written to it is \<open>failed\<close>.  On
  a store that refuses the update to \<open>processing\<close>, whose result the service does not
  read, a successful run writes \<open>completed\<close> after \<open>pending\<close>.  And when a second
  call of the same user fails while the first call is polling, the \<open>catch\<close> block of the
  second writes \<open>failed\<close> to the record of the first, which then writes \<open>completed\<close>.
\<close>

theorem status_writes_skip_and_reorder:
  "run_status_sequence empty_store (fst (snd (generateActivityVideo env_no_replica empty_store
       world_rejected morning_run Square (Some square_custom) ''Well done'' 7)))
     = [StatusPending, StatusFailed]
   \<and> success (fst (generateActivityVideo env_no_replica lossy_store
       world_ok morning_run Square (Some square_custom) ''Well done'' 7))
   \<and> run_status_sequence lossy_store (fst (snd (generateActivityVideo env_no_replica lossy_store
       world_ok morning_run Square (Some square_custom) ''Well done'' 7)))
     = [StatusPending, StatusCompleted]
   \<and> success (fst (generateActivityVideo_among id overlapping_failure env_no_replica empty_store
       world_ok morning_run Square (Some square_custom) ''Well done'' 7))
   \<and> run_status_sequence empty_store (fst (snd (generateActivityVideo_among id overlapping_failure
       env_no_replica empty_store world_ok morning_run Square (Some square_custom) ''Well done'' 7)))
     = [StatusPending, StatusProcessing, StatusFailed, StatusCompleted]"
proof (intro conjI)
  show "run_status_sequence empty_store (fst (snd (generateActivityVideo env_no_replica empty_store
       world_rejected morning_run Square (Some square_custom) ''Well done'' 7)))
     = [StatusPending, StatusFailed]"
    by (simp add: run_simps empty_store_def)
  show "success (fst (generateActivityVideo env_no_replica lossy_store
       world_ok morning_run Square (Some square_custom) ''Well done'' 7))"
    by (simp add: run_simps empty_store_def lossy_store_def)
  show "run_status_sequence lossy_store (fst (snd (generateActivityVideo env_no_replica lossy_store
       world_ok morning_run Square (Some square_custom) ''Well done'' 7)))
     = [StatusPending, StatusCompleted]"
    by (simp add: run_simps empty_store_def lossy_store_def)
  show "success (fst (generateActivityVideo_among id overlapping_failure env_no_replica empty_store
       world_ok morning_run Square (Some square_custom) ''Well done'' 7))"
    by (simp add: run_simps empty_store_def overlapping_failure_def)
  show "run_status_sequence empty_store (fst (snd (generateActivityVideo_among id overlapping_failure
       env_no_replica empty_store world_ok morning_run Square (Some square_custom) ''Well done'' 7)))
     = [StatusPending, StatusProcessing, StatusFailed, StatusCompleted]"
    by (simp add: run_simps empty_store_def overlapping_failure_def)
qed

text \<open>
  C5, amended.  Take a run during which no other client of the store writes the run's
  record.  The statuses written to the record are, in order, nothing (no record is
  created), or \<open>pending\<close> followed by one of: nothing, \<open>processing\<close>, \<open>failed\<close>,
  \<open>completed\<close>, \<open>processing, failed\<close>, \<open>processing, completed\<close>.  When the store
  applies every update and the \<open>catch\<close> block finds the user of the \<open>try\<close> block, they
  are nothing, \<open>pending, failed\<close>, \<open>pending, processing, failed\<close> or
  \<open>pending, processing, completed\<close>.  A successful run whose updates to \<open>processing\<close>
  and \<open>completed\<close> are applied writes \<open>pending, processing, completed\<close>.
\<close>

theorem status_sequence_of_a_run:
  assumes "keeps_record (new_record_id (video_generations sb)) during_submit"
    and "keeps_record (new_record_id (video_generations sb)) during_poll"
  shows "run_status_sequence sb (fst (snd
            (generateActivityVideo_among during_submit during_poll env sb w a f c s t)))
           \<in> {[], [StatusPending], [StatusPending, StatusProcessing],
               [StatusPending, StatusFailed], [StatusPending, StatusCompleted],
               [StatusPending, StatusProcessing, StatusFailed],
               [StatusPending, StatusProcessing, StatusCompleted]}
       \<and> (update_outcome sb = (\<lambda>st. Applied) \<and> auth_user_on_error sb = auth_user sb
            \<longrightarrow> run_status_sequence sb (fst (snd
                  (generateActivityVideo_among during_submit during_poll env sb w a f c s t)))
                \<in> {[], [StatusPending, StatusFailed],
                    [StatusPending, StatusProcessing, StatusFailed],
                    [StatusPending, StatusProcessing, StatusCompleted]})
       \<and> (success (fst (generateActivityVideo_among during_submit during_poll env sb w a f c s t))
            \<and> update_outcome sb StatusProcessing = Applied
            \<and> update_outcome sb StatusCompleted = Applied
            \<longrightarrow> run_status_sequence sb (fst (snd
                  (generateActivityVideo_among during_submit during_poll env sb w a f c s t)))
                = [StatusPending, StatusProcessing, StatusCompleted])"
proof (rule generateActivityVideo_among_cases [OF assms, where env = env and w = w and a = a
          and f = f and c = c and script = s and t = t], goal_cases)
  case 1
  then show ?thesis by simp
next
  case thrown: (2 u m s' posts st h)
  have nsuc: "\<not> success (fst (generateActivityVideo_among during_submit during_poll env sb w a f c s t))"
    by (simp add: thrown(5) no_result_def)
  note mf = tracks_mark_failed [OF thrown(6), of m]
  show ?thesis
  proof (cases "auth_user_on_error sb = Some u \<and> update_outcome sb StatusFailed = Applied")
    case True
    then have "tracks sb u (activity_id a) (mark_failed m s') StatusFailed (h @ [StatusFailed])"
      using mf thrown(7) by auto
    then have "run_status_sequence sb (mark_failed m s') = h @ [StatusFailed]"
      by (rule tracks_sequence)
    then show ?thesis using thrown(5,7) nsuc by auto
  next
    case False
    then have "tracks sb u (activity_id a) (mark_failed m s') st h"
      using mf by (simp split: if_splits)
    then have "run_status_sequence sb (mark_failed m s') = h"
      by (rule tracks_sequence)
    moreover have "\<not> (update_outcome sb = (\<lambda>st. Applied) \<and> auth_user_on_error sb = auth_user sb)"
      using False thrown(2) by auto
    ultimately show ?thesis using thrown(5,7) nsuc by auto
  qed
next
  case returned: (3 u res s' posts st h)
  have "run_status_sequence sb s' = h" by (rule tracks_sequence [OF returned(6)])
  then show ?thesis using returned(4,7) by auto
qed

theorem status_sequence_of_a_run_witness:
  "keeps_record (new_record_id (video_generations empty_store)) id
   \<and> update_outcome empty_store = (\<lambda>st. Applied)
   \<and> auth_user_on_error empty_store = auth_user empty_store
   \<and> success (fst (generateActivityVideo_among id id env_no_replica empty_store world_ok morning_run
        Square (Some square_custom) ''Well done'' 7))
   \<and> run_status_sequence empty_store (fst (snd (generateActivityVideo_among id id env_no_replica
         empty_store world_ok morning_run Square (Some square_custom) ''Well done'' 7)))
       = [StatusPending, StatusProcessing, StatusCompleted]"
proof -
  have k: "keeps_record (new_record_id (video_generations empty_store)) id"
    by (rule keeps_record_id)
  have o: "update_outcome empty_store = (\<lambda>st. Applied)"
    "auth_user_on_error empty_store = auth_user empty_store"
    by (simp_all add: empty_store_def)
  have suc: "success (fst (generateActivityVideo_among id id env_no_replica empty_store world_ok
       morning_run Square (Some square_custom) ''Well done'' 7))"
    by (simp add: run_simps empty_store_def)
  have ap: "update_outcome empty_store StatusProcessing = Applied"
    "update_outcome empty_store StatusCompleted = Applied"
    by (simp_all add: empty_store_def)
  have "run_status_sequence empty_store (fst (snd (generateActivityVideo_among id id env_no_replica
         empty_store world_ok morning_run Square (Some square_custom) ''Well done'' 7)))
       = [StatusPending, StatusProcessing, StatusCompleted]"
    using status_sequence_of_a_run [OF k k, of env_no_replica world_ok morning_run Square
        "Some square_custom" "''Well done''" 7] suc ap
    by (elim conjE) (rule mp, assumption, intro conjI)
  with k o suc show ?thesis by (intro conjI)
qed

subsection \<open>The \<open>catch\<close> block and the records left open\<close>




subsection \<open>Evaluating the loop on concrete providers\<close>

lemma floor_rat_numeral [simp]:
  "\<lfloor>(numeral a :: rat) / numeral b\<rfloor> = numeral a div numeral b"
  using floor_divide_of_int_eq [of "numeral a" "numeral b", where ?'a = rat] by simp

lemma POLLING_CONFIG_simps:
  "maxAttempts POLLING_CONFIG = 60" "initialInterval POLLING_CONFIG = 5000"
  "maxInterval POLLING_CONFIG = 20000" "backoffMultiplier POLLING_CONFIG = 13 / 10"
  "totalTimeout POLLING_CONFIG = 600000"
  by (simp_all add: POLLING_CONFIG_def)

lemma phase_change_run:
  "sleeps (snd (pollVideoCompletionEnhanced ''key'' phase_change ''v1'' 0))
     = [(QueueWait, 7500), (QueueWait, 9750), (QueueWait, 12675), (QueueWait, 32955 / 2),
        (QueueWait, 85683 / 4), (ProcessingWait, 371293 / 20)]"
  by (simp add: pollVideoCompletionEnhanced_def poll_loop_unfold poll_body_def POLLING_CONFIG_def
    phase_change_def status_reply_def getVideoStatus_def Let_def js_or_def truthy_def sleep_def
    backoff_def pollInterval_def)

lemma flaky_error_step:
  assumes "attempts st < 59" "now st - s \<le> 600000"
  shows "poll_body POLLING_CONFIG ''key'' flaky ''v1'' s st
           = (None, sleep RetryWait (currentInterval st) (st\<lparr>attempts := Suc (attempts st)\<rparr>))"
  using assms
  by (simp add: poll_body_def POLLING_CONFIG_def flaky_def getVideoStatus_def Let_def)

lemma flaky_last_step:
  assumes "attempts st = 59" "now st - s \<le> 600000"
  shows "poll_body POLLING_CONFIG ''key'' flaky ''v1'' s st
           = (None, st\<lparr>attempts := 60, queuePhase := False\<rparr>)"
  using assms
  by (cases "queuePhase st")
     (simp_all add: poll_body_def POLLING_CONFIG_def flaky_def getVideoStatus_def Let_def
        processing_reply_def js_or_def truthy_def)

lemma flaky_run:
  assumes "attempts st \<le> 59" "currentInterval st = 5000" "now st = s + 5000 * attempts st"
  shows "fst (poll_loop POLLING_CONFIG ''key'' flaky ''v1'' s st)
           = max_attempts_result POLLING_CONFIG ''v1'' 60"
  using assms
proof (induction "59 - attempts st" arbitrary: st)
  case 0
  then have a: "attempts st = 59" by simp
  have el: "now st - s \<le> 600000" using 0 a by simp
  show ?case
    by (subst poll_loop.simps, simp add: a POLLING_CONFIG_simps flaky_last_step [OF a el])
       (subst poll_loop.simps, simp add: POLLING_CONFIG_simps)
next
  case (Suc n)
  then have a: "attempts st < 59" by simp
  have el: "now st - s \<le> 600000" using Suc a by simp
  let ?st' = "sleep RetryWait (currentInterval st) (st\<lparr>attempts := Suc (attempts st)\<rparr>)"
  have step: "poll_loop POLLING_CONFIG ''key'' flaky ''v1'' s st
                = poll_loop POLLING_CONFIG ''key'' flaky ''v1'' s ?st'"
    using a by (subst poll_loop.simps) (simp add: flaky_error_step [OF a el] POLLING_CONFIG_simps)
  have "fst (poll_loop POLLING_CONFIG ''key'' flaky ''v1'' s ?st')
           = max_attempts_result POLLING_CONFIG ''v1'' 60"
    using Suc.prems Suc.hyps(2) a
    by (intro Suc.hyps(1)) (simp_all add: sleep_def)
  then show ?case by (simp only: step)
qed

lemma unreachable_error_step:
  assumes "attempts st < 59" "now st - s \<le> 600000"
  shows "poll_body POLLING_CONFIG ''key'' unreachable ''v1'' s st
           = (None, sleep RetryWait (currentInterval st) (st\<lparr>attempts := Suc (attempts st)\<rparr>))"
  using assms
  by (simp add: poll_body_def POLLING_CONFIG_def unreachable_def getVideoStatus_def Let_def)

lemma unreachable_last_step:
  assumes "attempts st = 59" "now st - s \<le> 600000"
  shows "fst (poll_body POLLING_CONFIG ''key'' unreachable ''v1'' s st)
           = Some (polling_failed_result ''v1'' 60 ''offline'')"
  using assms
  by (simp add: poll_body_def POLLING_CONFIG_def unreachable_def getVideoStatus_def Let_def)

lemma unreachable_run:
  assumes "attempts st \<le> 59" "currentInterval st = 5000" "now st = s + 5000 * attempts st"
  shows "fst (poll_loop POLLING_CONFIG ''key'' unreachable ''v1'' s st)
           = polling_failed_result ''v1'' 60 ''offline''"
  using assms
proof (induction "59 - attempts st" arbitrary: st)
  case 0
  then have a: "attempts st = 59" by simp
  have el: "now st - s \<le> 600000" using 0 a by simp
  obtain x st' where b: "poll_body POLLING_CONFIG ''key'' unreachable ''v1'' s st = (x, st')"
    by (cases "poll_body POLLING_CONFIG ''key'' unreachable ''v1'' s st")
  then have "x = Some (polling_failed_result ''v1'' 60 ''offline'')"
    using unreachable_last_step [OF a el] by simp
  then show ?case
    using b by (subst poll_loop.simps) (simp add: a POLLING_CONFIG_simps)
next
  case (Suc n)
  then have a: "attempts st < 59" by simp
  have el: "now st - s \<le> 600000" using Suc a by simp
  let ?st' = "sleep RetryWait (currentInterval st) (st\<lparr>attempts := Suc (attempts st)\<rparr>)"
  have step: "poll_loop POLLING_CONFIG ''key'' unreachable ''v1'' s st
                = poll_loop POLLING_CONFIG ''key'' unreachable ''v1'' s ?st'"
    using a by (subst poll_loop.simps) (simp add: unreachable_error_step [OF a el] POLLING_CONFIG_simps)
  have "fst (poll_loop POLLING_CONFIG ''key'' unreachable ''v1'' s ?st')
           = polling_failed_result ''v1'' 60 ''offline''"
    using Suc.prems Suc.hyps(2) a
    by (intro Suc.hyps(1)) (simp_all add: sleep_def)
  then show ?case by (simp only: step)
qed

subsection \<open>Invariants of the polling loop\<close>

text \<open>
  An invariant of the loop body that holds at the start holds in the state the loop ends
  in, and what the body establishes at each \<open>return\<close> holds of the result.
\<close>

lemma poll_loop_invariant:
  assumes "I st"
    and "\<And>st st'. I st \<Longrightarrow> attempts st < maxAttempts cfg
           \<Longrightarrow> poll_body cfg k p v s st = (None, st') \<Longrightarrow> I st'"
    and "\<And>st r st'. I st \<Longrightarrow> attempts st < maxAttempts cfg
           \<Longrightarrow> poll_body cfg k p v s st = (Some r, st') \<Longrightarrow> Q r st'"
    and "\<And>st. I st \<Longrightarrow> \<not> attempts st < maxAttempts cfg
           \<Longrightarrow> Q (max_attempts_result cfg v (attempts st)) st"
  shows "Q (fst (poll_loop cfg k p v s st)) (snd (poll_loop cfg k p v s st))"
  using assms
proof (induction cfg k p v s st rule: poll_loop.induct)
  case (1 cfg k p v s st)
  show ?case
  proof (cases "attempts st < maxAttempts cfg")
    case False
    then have "poll_loop cfg k p v s st = (max_attempts_result cfg v (attempts st), st)"
      by (subst poll_loop.simps) simp
    then show ?thesis using "1.prems"(4) [OF "1.prems"(1) False] by simp
  next
    case True
    obtain x st' where b: "poll_body cfg k p v s st = (x, st')"
      by (cases "poll_body cfg k p v s st")
    show ?thesis
    proof (cases x)
      case None
      have next_ok: "I st'" using "1.prems"(2) [OF "1.prems"(1) True] b None by simp
      have "poll_loop cfg k p v s st = poll_loop cfg k p v s st'"
        using True b None by (subst poll_loop.simps) simp
      moreover have "Q (fst (poll_loop cfg k p v s st')) (snd (poll_loop cfg k p v s st'))"
        using "1.IH" [OF True b [symmetric] None next_ok] "1.prems"(2,3,4) by blast
      ultimately show ?thesis by simp
    next
      case (Some r)
      have "poll_loop cfg k p v s st = (r, st')"
        using True b Some by (subst poll_loop.simps) simp
      then show ?thesis using "1.prems"(3) [OF "1.prems"(1) True] b Some by simp
    qed
  qed
qed

lemma poll_body_return:
  assumes "attempts st < maxAttempts cfg" "poll_body cfg k p v s st = (Some r, st')"
  shows "attempts_made r = Some (attempts st') \<and> attempts st' \<le> maxAttempts cfg"
  using assms
  by (auto simp: poll_body_def Let_def timeout_result_def polling_failed_result_def
       failed_status_result_def no_result_def split: if_splits sum.splits)

lemma poll_loop_attempts:
  assumes "attempts st \<le> maxAttempts cfg"
  shows "attempts_made (fst (poll_loop cfg k p v s st)) = Some (attempts (snd (poll_loop cfg k p v s st)))
       \<and> attempts (snd (poll_loop cfg k p v s st)) \<le> maxAttempts cfg"
proof (rule poll_loop_invariant [where I = "\<lambda>st. attempts st \<le> maxAttempts cfg"])
  show "attempts st \<le> maxAttempts cfg" by (fact assms)
next
  fix st st' assume "attempts st < maxAttempts cfg" "poll_body cfg k p v s st = (None, st')"
  then show "attempts st' \<le> maxAttempts cfg" using poll_body_attempts by fastforce
next
  fix st r st' assume "attempts st < maxAttempts cfg" "poll_body cfg k p v s st = (Some r, st')"
  then show "attempts_made r = Some (attempts st') \<and> attempts st' \<le> maxAttempts cfg"
    by (rule poll_body_return)
next
  fix st assume "attempts st \<le> maxAttempts cfg" "\<not> attempts st < maxAttempts cfg"
  then show "attempts_made (max_attempts_result cfg v (attempts st)) = Some (attempts st)
       \<and> attempts st \<le> maxAttempts cfg"
    by (simp add: max_attempts_result_def no_result_def)
qed

lemma queue_cap_mono:
  "(c::rat) \<le> c' \<Longrightarrow> min (c * (3 / 2)) 30000 \<le> min (c' * (3 / 2)) 30000"
  by (simp add: min_def)

lemma wait_within_mono:
  assumes "wait_within c x" "c \<le> c'"
  shows "wait_within c' x"
proof (cases "fst x = QueueWait")
  case True
  then show ?thesis
    using assms(1) queue_cap_mono [OF assms(2)] unfolding wait_within_def
    by (simp only: if_True simp_thms) linarith
next
  case False
  then show ?thesis
    using assms unfolding wait_within_def by (simp only: if_False simp_thms) linarith
qed

lemma queue_waits_le:
  assumes "\<forall>x \<in> set ws. wait_within c x"
  shows "\<forall>w \<in> set (map snd (filter (\<lambda>x. fst x = QueueWait) ws)). w \<le> min (c * (3 / 2)) 30000"
proof
  fix w assume "w \<in> set (map snd (filter (\<lambda>x. fst x = QueueWait) ws))"
  then obtain x where x: "x \<in> set ws" "fst x = QueueWait" "w = snd x" by auto
  from assms x(1) have "wait_within c x" by blast
  then show "w \<le> min (c * (3 / 2)) 30000"
    unfolding wait_within_def x(3) by (simp only: x(2) if_True simp_thms)
qed

lemma other_waits_le:
  assumes "\<forall>x \<in> set ws. wait_within c x"
  shows "\<forall>w \<in> set (map snd (filter (\<lambda>x. fst x \<noteq> QueueWait) ws)). w \<le> c"
proof
  fix w assume "w \<in> set (map snd (filter (\<lambda>x. fst x \<noteq> QueueWait) ws))"
  then obtain x where x: "x \<in> set ws" "fst x \<noteq> QueueWait" "w = snd x" by auto
  from assms x(1) have "wait_within c x" by blast
  then show "w \<le> c"
    unfolding wait_within_def x(3) using x(2) by (simp only: if_False simp_thms)
qed

lemma sorted_snoc_le: "sorted xs \<Longrightarrow> \<forall>x \<in> set xs. x \<le> w \<Longrightarrow> sorted (xs @ [w :: rat])"
  by (simp add: sorted_append)

lemma waits_inv_snoc:
  assumes "waits_inv c ws" "c \<le> c'" "c' \<le> 20000" "wait_within c' (k, w)"
    "if k = QueueWait then w = min (c * (3 / 2)) 30000 else w = c"
  shows "waits_inv c' (ws @ [(k, w)])"
proof -
  have inv: "5000 \<le> c" "sorted (map snd (filter (\<lambda>x. fst x = QueueWait) ws))"
    "sorted (map snd (filter (\<lambda>x. fst x \<noteq> QueueWait) ws))" "\<forall>x \<in> set ws. wait_within c x"
    using assms(1) unfolding waits_inv_def by blast+
  have all': "\<forall>x \<in> set (ws @ [(k, w)]). wait_within c' x"
    using inv(4) assms(2,4) wait_within_mono by auto
  have sq: "sorted (map snd (filter (\<lambda>x. fst x = QueueWait) (ws @ [(k, w)])))"
  proof (cases "k = QueueWait")
    case True
    then have "w = min (c * (3 / 2)) 30000" using assms(5) by simp
    then show ?thesis
      using True sorted_snoc_le [OF inv(2) queue_waits_le [OF inv(4)]] by simp
  next
    case False
    then show ?thesis using inv(2) by simp
  qed
  have sp: "sorted (map snd (filter (\<lambda>x. fst x \<noteq> QueueWait) (ws @ [(k, w)])))"
  proof (cases "k = QueueWait")
    case True
    then show ?thesis using inv(3) by simp
  next
    case False
    then have "w = c" using assms(5) by simp
    then show ?thesis
      using False sorted_snoc_le [OF inv(3) other_waits_le [OF inv(4)]] by simp
  qed
  have "5000 \<le> c'" using inv(1) assms(2) by linarith
  then show ?thesis
    unfolding waits_inv_def using assms(3) sq sp all' by blast
qed

lemma waits_inv_retry:
  assumes "waits_inv c ws"
  shows "waits_inv c (ws @ [(RetryWait, c)])"
proof (rule waits_inv_snoc [OF assms])
  have "5000 \<le> c" "c \<le> 20000" using assms unfolding waits_inv_def by blast+
  then show "wait_within c (RetryWait, c)" "c \<le> 20000" by (simp_all add: wait_within_def)
qed simp_all

lemma waits_inv_backoff:
  assumes "waits_inv c ws"
  shows "waits_inv (min (c * (13 / 10)) 20000) (ws @ [(QueueWait, min (c * (3 / 2)) 30000)])"
    and "waits_inv (min (c * (13 / 10)) 20000) (ws @ [(ProcessingWait, c)])"
proof -
  let ?c' = "min (c * (13 / 10)) 20000"
  have c: "5000 \<le> c" "c \<le> 20000" using assms unfolding waits_inv_def by blast+
  have c': "c \<le> ?c'" "?c' \<le> 20000" using c by (simp_all add: min_def)
  have "wait_within c (QueueWait, min (c * (3 / 2)) 30000)"
    using c by (simp add: wait_within_def min_def)
  then have wq: "wait_within ?c' (QueueWait, min (c * (3 / 2)) 30000)"
    using c'(1) by (rule wait_within_mono)
  have "wait_within c (ProcessingWait, c)" using c by (simp add: wait_within_def)
  then have wp: "wait_within ?c' (ProcessingWait, c)"
    using c'(1) by (rule wait_within_mono)
  show "waits_inv ?c' (ws @ [(QueueWait, min (c * (3 / 2)) 30000)])"
    by (rule waits_inv_snoc [OF assms c' wq]) simp
  show "waits_inv ?c' (ws @ [(ProcessingWait, c)])"
    by (rule waits_inv_snoc [OF assms c' wp]) simp
qed

lemma poll_body_waits_inv:
  assumes "waits_inv (currentInterval st) (sleeps st)"
    "poll_body POLLING_CONFIG k p v s st = (x, st')"
  shows "waits_inv (currentInterval st') (sleeps st')"
  using assms waits_inv_retry [OF assms(1)] waits_inv_backoff [OF assms(1)]
  by (auto simp: poll_body_def Let_def sleep_def backoff_def pollInterval_def POLLING_CONFIG_simps
      split: if_splits sum.splits)

lemma poll_loop_waits_inv:
  assumes "waits_inv (currentInterval st) (sleeps st)"
  shows "waits_inv (currentInterval (snd (poll_loop POLLING_CONFIG k p v s st)))
           (sleeps (snd (poll_loop POLLING_CONFIG k p v s st)))"
  by (rule poll_loop_invariant [where I = "\<lambda>st. waits_inv (currentInterval st) (sleeps st)"
        and Q = "\<lambda>r st. waits_inv (currentInterval st) (sleeps st)", OF assms])
     (auto dest: poll_body_waits_inv)

subsection \<open>Timeout and attempt ceiling\<close>

text \<open>
  C3, as the claim states it, fails in its second half.  On \<open>flaky\<close> the loop uses up
  its 60 attempts within five minutes, the 60th poll is answered \<open>processing\<close>, and the
  result carries \<open>attempts_made\<close> and a suggestion but no \<open>total_time\<close>.  On
  \<open>unreachable\<close> the 60th poll throws like the 59 before it, and the result is another
  one: it carries \<open>attempts_made\<close>, but neither \<open>total_time\<close> nor a suggestion.
\<close>

theorem attempt_ceiling_result_has_no_elapsed:
  "total_time (fst (pollVideoCompletionEnhanced ''key'' flaky ''v1'' 0)) = None
   \<and> attempts_made (fst (pollVideoCompletionEnhanced ''key'' flaky ''v1'' 0)) = Some 60
   \<and> suggestion (fst (pollVideoCompletionEnhanced ''key'' flaky ''v1'' 0)) \<noteq> None
   \<and> \<not> success (fst (pollVideoCompletionEnhanced ''key'' flaky ''v1'' 0))
   \<and> total_time (fst (pollVideoCompletionEnhanced ''key'' unreachable ''v1'' 0)) = None
   \<and> attempts_made (fst (pollVideoCompletionEnhanced ''key'' unreachable ''v1'' 0)) = Some 60
   \<and> suggestion (fst (pollVideoCompletionEnhanced ''key'' unreachable ''v1'' 0)) = None
   \<and> \<not> success (fst (pollVideoCompletionEnhanced ''key'' unreachable ''v1'' 0))"
  using flaky_run [of "\<lparr>attempts = 0, currentInterval = 5000, queuePhase = True, now = 0, sleeps = []\<rparr>" 0]
    unreachable_run [of "\<lparr>attempts = 0, currentInterval = 5000, queuePhase = True, now = 0, sleeps = []\<rparr>" 0]
  by (simp add: pollVideoCompletionEnhanced_def max_attempts_result_def polling_failed_result_def
       no_result_def POLLING_CONFIG_simps)

text \<open>
  What the body of the loop returns, and what the loop returns when the attempts are
  used up.
\<close>

lemma poll_body_answered:
  assumes "poll_body POLLING_CONFIG k p v s st = (None, st')" "attempts st' = 60"
  shows "\<exists>resp. getVideoStatus k (snd (p 60)) = Inr resp"
proof -
  have n: "Suc (attempts st) = 60" using poll_body_attempts [OF assms(1)] assms(2) by simp
  show ?thesis
  proof (cases "getVideoStatus k (snd (p 60))")
    case (Inl msg)
    then have False
      using assms(1) n
      by (simp add: poll_body_def Let_def POLLING_CONFIG_simps split: if_splits)
    then show ?thesis ..
  next
    case (Inr resp)
    then show ?thesis by blast
  qed
qed

lemma poll_body_outcome:
  assumes "attempts st < maxAttempts POLLING_CONFIG"
    "poll_body POLLING_CONFIG k p v s st = (Some r, st')"
  shows "poll_outcome k p v s r st'"
proof -
  have a: "attempts st < 60" using assms(1) by (simp add: POLLING_CONFIG_simps)
  show ?thesis
  proof (cases "totalTimeout POLLING_CONFIG < now st - s")
    case True
    then have "r = timeout_result v (attempts st) (now st - s)" "st' = st"
      using assms(2) by (auto simp: poll_body_def Let_def)
    then show ?thesis using True a by (simp add: poll_outcome_def POLLING_CONFIG_simps)
  next
    case False
    show ?thesis
    proof (cases "getVideoStatus k (snd (p (Suc (attempts st))))")
      case (Inl msg)
      then have r: "r = polling_failed_result v (Suc (attempts st)) msg" "attempts st' = Suc (attempts st)"
        and m: "60 \<le> Suc (attempts st)"
        using assms(2) False
        by (auto simp: poll_body_def Let_def POLLING_CONFIG_simps split: if_splits)
      then have "Suc (attempts st) = 60" using a by simp
      then show ?thesis using r Inl by (simp add: poll_outcome_def)
    next
      case (Inr resp)
      then have n: "attempts st' = Suc (attempts st)"
        and "success r \<or> r = failed_status_result v (Suc (attempts st)) (now st - s) (status resp)"
        using assms(2) False
        by (auto simp: poll_body_def Let_def no_result_def split: if_splits)
      then have "success r \<or> (\<exists>e x. r = failed_status_result v (attempts st') e x)"
        by (simp only: n) blast
      then show ?thesis unfolding poll_outcome_def by blast
    qed
  qed
qed

text \<open>
  C3, amended.  At the top of an iteration (fewer than 60 polls made) with more than
  600000 ms elapsed since the start, the loop returns at once, without another poll or
  wait: a failure carrying the attempts made, the elapsed seconds and a suggestion.  No
  run makes more than 60 polls, and every run reports the number it made.  A run ends in
  one of five ways: success; a failure reported by the provider; the timeout just
  described; 60 polls made, the 60th answered without ending the run: a failure worded as
  a timeout that carries the attempts made and a suggestion, and no elapsed time; 60 polls
  made, the 60th thrown: the failure \<open>Polling failed after 60 attempts\<close> with the
  message thrown, which carries the attempts made, and neither elapsed time nor
  suggestion.
\<close>

theorem poll_bounds:
  "(attempts st < maxAttempts POLLING_CONFIG \<and> totalTimeout POLLING_CONFIG < now st - s \<longrightarrow>
      snd (poll_loop POLLING_CONFIG k p v s st) = st
    \<and> \<not> success (fst (poll_loop POLLING_CONFIG k p v s st))
    \<and> attempts_made (fst (poll_loop POLLING_CONFIG k p v s st)) = Some (attempts st)
    \<and> total_time (fst (poll_loop POLLING_CONFIG k p v s st)) = Some (math_round_div1000 (now st - s))
    \<and> suggestion (fst (poll_loop POLLING_CONFIG k p v s st)) \<noteq> None)
   \<and> totalTimeout POLLING_CONFIG = 600000 \<and> maxAttempts POLLING_CONFIG = 60
   \<and> attempts_made (fst (pollVideoCompletionEnhanced k p v s))
        = Some (attempts (snd (pollVideoCompletionEnhanced k p v s)))
   \<and> attempts (snd (pollVideoCompletionEnhanced k p v s)) \<le> 60
   \<and> poll_outcome k p v s (fst (pollVideoCompletionEnhanced k p v s))
        (snd (pollVideoCompletionEnhanced k p v s))
   \<and> \<not> success (max_attempts_result POLLING_CONFIG v 60)
   \<and> attempts_made (max_attempts_result POLLING_CONFIG v 60) = Some 60
   \<and> total_time (max_attempts_result POLLING_CONFIG v 60) = None
   \<and> suggestion (max_attempts_result POLLING_CONFIG v 60) \<noteq> None
   \<and> \<not> success (polling_failed_result v 60 msg)
   \<and> attempts_made (polling_failed_result v 60 msg) = Some 60
   \<and> total_time (polling_failed_result v 60 msg) = None
   \<and> suggestion (polling_failed_result v 60 msg) = None"
proof -
  have t: "attempts st < maxAttempts POLLING_CONFIG \<Longrightarrow> totalTimeout POLLING_CONFIG < now st - s
      \<Longrightarrow> poll_loop POLLING_CONFIG k p v s st = (timeout_result v (attempts st) (now st - s), st)"
    by (subst poll_loop.simps) (simp add: poll_body_def Let_def)
  have n: "attempts_made (fst (pollVideoCompletionEnhanced k p v s))
          = Some (attempts (snd (pollVideoCompletionEnhanced k p v s)))
        \<and> attempts (snd (pollVideoCompletionEnhanced k p v s)) \<le> maxAttempts POLLING_CONFIG"
    unfolding pollVideoCompletionEnhanced_def by (rule poll_loop_attempts) simp
  let ?I = "\<lambda>st. attempts st \<le> maxAttempts POLLING_CONFIG
      \<and> (attempts st = 60 \<longrightarrow> (\<exists>resp. getVideoStatus k (snd (p 60)) = Inr resp))"
  have o: "poll_outcome k p v s (fst (pollVideoCompletionEnhanced k p v s))
        (snd (pollVideoCompletionEnhanced k p v s))"
    unfolding pollVideoCompletionEnhanced_def
  proof (rule poll_loop_invariant [where I = ?I])
    show "?I \<lparr>attempts = 0, currentInterval = initialInterval POLLING_CONFIG,
            queuePhase = True, now = s, sleeps = []\<rparr>"
      by simp
  next
    fix st st' :: poll_state
    assume b: "attempts st < maxAttempts POLLING_CONFIG"
      "poll_body POLLING_CONFIG k p v s st = (None, st')"
    then have "attempts st' \<le> maxAttempts POLLING_CONFIG" using poll_body_attempts by fastforce
    moreover have "attempts st' = 60 \<longrightarrow> (\<exists>resp. getVideoStatus k (snd (p 60)) = Inr resp)"
      using poll_body_answered [OF b(2)] by blast
    ultimately show "?I st'" by simp
  next
    fix st st' :: poll_state and r
    assume "attempts st < maxAttempts POLLING_CONFIG"
      "poll_body POLLING_CONFIG k p v s st = (Some r, st')"
    then show "poll_outcome k p v s r st'" by (rule poll_body_outcome)
  next
    fix st :: poll_state
    assume i: "?I st" and "\<not> attempts st < maxAttempts POLLING_CONFIG"
    then have "attempts st = 60" by (simp add: POLLING_CONFIG_simps)
    then show "poll_outcome k p v s (max_attempts_result POLLING_CONFIG v (attempts st)) st"
      using i by (simp add: poll_outcome_def)
  qed
  show ?thesis
    using n o
    by (simp add: t timeout_result_def max_attempts_result_def polling_failed_result_def
          no_result_def POLLING_CONFIG_simps)
qed

theorem poll_bounds_witness:
  "attempts timed_out_state < maxAttempts POLLING_CONFIG
   \<and> totalTimeout POLLING_CONFIG < now timed_out_state - 0
   \<and> attempts_made (fst (poll_loop POLLING_CONFIG ''key'' flaky ''v1'' 0 timed_out_state)) = Some 3
   \<and> total_time (fst (poll_loop POLLING_CONFIG ''key'' flaky ''v1'' 0 timed_out_state)) = Some 700
   \<and> suggestion (fst (poll_loop POLLING_CONFIG ''key'' flaky ''v1'' 0 timed_out_state)) \<noteq> None"
  using poll_bounds [of timed_out_state 0 "''key''" flaky "''v1''"]
  by (simp add: timed_out_state_def POLLING_CONFIG_simps math_round_div1000_def)

subsection \<open>Poll intervals\<close>

text \<open>
  C8, as the claim states it, fails: on \<open>phase_change\<close> the fifth wait, in the queue
  phase, is 21420.75 ms, above the maximum interval of 20000 ms, and the sixth wait, the
  first of the processing phase, is shorter than the fifth.
\<close>

theorem waits_exceed_max_and_drop:
  "(QueueWait, 85683 / 4) \<in> set (sleeps (snd (pollVideoCompletionEnhanced ''key'' phase_change ''v1'' 0)))
   \<and> maxInterval POLLING_CONFIG < 85683 / 4
   \<and> \<not> sorted (map snd (sleeps (snd (pollVideoCompletionEnhanced ''key'' phase_change ''v1'' 0))))"
proof -
  let ?ws = "map snd (sleeps (snd (pollVideoCompletionEnhanced ''key'' phase_change ''v1'' 0)))"
  have ws: "?ws = [7500, 9750, 12675, 32955 / 2, 85683 / 4, 371293 / 20]"
    by (simp add: phase_change_run)
  have "\<not> sorted ?ws"
  proof
    assume "sorted ?ws"
    then have "?ws ! 4 \<le> ?ws ! 5" by (rule sorted_nth_mono) (simp_all add: ws)
    then show False by (simp add: ws)
  qed
  moreover have "(QueueWait, 85683 / 4)
      \<in> set (sleeps (snd (pollVideoCompletionEnhanced ''key'' phase_change ''v1'' 0)))"
    by (simp add: phase_change_run)
  moreover have "maxInterval POLLING_CONFIG < 85683 / 4" by (simp add: POLLING_CONFIG_simps)
  ultimately show ?thesis by blast
qed

text \<open>
  C8, amended.  In every run the waits after polls answered in the queue phase are in
  ascending order, and so are the other waits (after polls answered in the processing
  phase and after polls that threw), which are the base interval at the time.  Every wait
  is at least the initial interval and at most 30000 ms, and the waits outside the queue
  phase are at most the maximum interval.  For the same base interval the wait of the
  queue phase, \<open>min (base * 1.5) 30000\<close>, is at least the wait of the processing phase.
\<close>

theorem poll_waits_bounds:
  "sorted (map snd (filter (\<lambda>x. fst x = QueueWait)
             (sleeps (snd (pollVideoCompletionEnhanced k p v s)))))
   \<and> sorted (map snd (filter (\<lambda>x. fst x \<noteq> QueueWait)
             (sleeps (snd (pollVideoCompletionEnhanced k p v s)))))
   \<and> (\<forall>x \<in> set (sleeps (snd (pollVideoCompletionEnhanced k p v s))).
         initialInterval POLLING_CONFIG \<le> snd x \<and> snd x \<le> 30000
         \<and> (fst x \<noteq> QueueWait \<longrightarrow> snd x \<le> maxInterval POLLING_CONFIG))
   \<and> (\<forall>st. 0 \<le> currentInterval st \<and> currentInterval st \<le> maxInterval POLLING_CONFIG \<longrightarrow>
         pollInterval (st\<lparr>queuePhase := False\<rparr>) \<le> pollInterval (st\<lparr>queuePhase := True\<rparr>)
         \<and> pollInterval (st\<lparr>queuePhase := True\<rparr>) = min (currentInterval st * (3 / 2)) 30000)"
proof -
  let ?st = "snd (pollVideoCompletionEnhanced k p v s)"
  have "waits_inv (currentInterval ?st) (sleeps ?st)"
    unfolding pollVideoCompletionEnhanced_def
    by (rule poll_loop_waits_inv) (simp add: waits_inv_def POLLING_CONFIG_simps)
  then have inv: "currentInterval ?st \<le> 20000"
    "sorted (map snd (filter (\<lambda>x. fst x = QueueWait) (sleeps ?st)))"
    "sorted (map snd (filter (\<lambda>x. fst x \<noteq> QueueWait) (sleeps ?st)))"
    "\<forall>x \<in> set (sleeps ?st). wait_within (currentInterval ?st) x"
    unfolding waits_inv_def by blast+
  have each: "\<forall>x \<in> set (sleeps ?st).
         initialInterval POLLING_CONFIG \<le> snd x \<and> snd x \<le> 30000
         \<and> (fst x \<noteq> QueueWait \<longrightarrow> snd x \<le> maxInterval POLLING_CONFIG)"
  proof
    fix x assume "x \<in> set (sleeps ?st)"
    with inv(4) have w: "wait_within (currentInterval ?st) x" by blast
    show "initialInterval POLLING_CONFIG \<le> snd x \<and> snd x \<le> 30000
         \<and> (fst x \<noteq> QueueWait \<longrightarrow> snd x \<le> maxInterval POLLING_CONFIG)"
      using w inv(1) by (cases "fst x = QueueWait") (simp_all add: wait_within_def POLLING_CONFIG_simps)
  qed
  have cmp: "\<forall>st. 0 \<le> currentInterval st \<and> currentInterval st \<le> maxInterval POLLING_CONFIG \<longrightarrow>
         pollInterval (st\<lparr>queuePhase := False\<rparr>) \<le> pollInterval (st\<lparr>queuePhase := True\<rparr>)
         \<and> pollInterval (st\<lparr>queuePhase := True\<rparr>) = min (currentInterval st * (3 / 2)) 30000"
    by (simp add: pollInterval_def POLLING_CONFIG_simps min_def)
  show ?thesis using inv(2,3) each cmp by blast
qed

theorem poll_waits_bounds_witness:
  "(ProcessingWait, 371293 / 20) \<in> set (sleeps (snd (pollVideoCompletionEnhanced ''key'' phase_change ''v1'' 0)))
   \<and> initialInterval POLLING_CONFIG \<le> 371293 / 20
   \<and> (371293 / 20 :: rat) \<le> maxInterval POLLING_CONFIG
   \<and> sorted (map snd (filter (\<lambda>x. fst x = QueueWait)
             (sleeps (snd (pollVideoCompletionEnhanced ''key'' phase_change ''v1'' 0)))))"
proof -
  have mem: "(ProcessingWait, 371293 / 20)
      \<in> set (sleeps (snd (pollVideoCompletionEnhanced ''key'' phase_change ''v1'' 0)))"
    by (simp add: phase_change_run)
  note th = poll_waits_bounds [of "''key''" phase_change "''v1''" 0]
  from th have srt: "sorted (map snd (filter (\<lambda>x. fst x = QueueWait)
             (sleeps (snd (pollVideoCompletionEnhanced ''key'' phase_change ''v1'' 0)))))"
    by (rule conjunct1)
  from th have "\<forall>x \<in> set (sleeps (snd (pollVideoCompletionEnhanced ''key'' phase_change ''v1'' 0))).
         initialInterval POLLING_CONFIG \<le> snd x \<and> snd x \<le> 30000
         \<and> (fst x \<noteq> QueueWait \<longrightarrow> snd x \<le> maxInterval POLLING_CONFIG)"
    by (elim conjE)
  from this [rule_format, OF mem]
  have "initialInterval POLLING_CONFIG \<le> 371293 / 20" "(371293 / 20 :: rat) \<le> maxInterval POLLING_CONFIG"
    by simp_all
  with mem srt show ?thesis by (intro conjI)
qed

end
